(* ===== verification/Prelude.thy ===== *)
theory Prelude
  imports Main "HOL-Library.AList" "HOL-Library.Sublist"
begin

text \<open>
  Shared vocabulary of the development: the type of Python strings, the Python
  exceptions the handlers can raise, the collections of facts the component proofs
  share, and the lemmas on association lists that model Python's insertion-ordered
  \<open>dict\<close>.  A Python \<open>dict\<close> assignment \<open>d[k] = v\<close> replaces the value in place
  when \<open>k\<close> is present and appends \<open>(k, v)\<close> at the end otherwise, which is exactly
  \<^const>\<open>AList.update\<close>; an in-place mutation of the value stored under \<open>k\<close>
  (\<open>d[k]["f"] = x\<close>, \<open>d[k]["l"].append(x)\<close>) is \<^const>\<open>AList.map_entry\<close>.
\<close>

section \<open>Types\<close>

text \<open>
  A Python \<open>str\<close> is a sequence of Unicode code points, and \<open>len\<close> counts code
  points; it is modelled as a list of naturals, one per code point.
\<close>

type_synonym pystr = "nat list"

text \<open>The Python exceptions that can escape a handler of the bot or its start-up.\<close>

datatype py_error = ValueError | IndexError | AttributeError | UnicodeDecodeError
  | ZeroDivisionError | OverflowError

section \<open>Collections\<close>

named_theorems registry_simps "characteristic equations of the registry operations"
named_theorems handler_simps "characteristic equations of the bot handlers"

section \<open>Association lists as Python dictionaries\<close>

definition keys :: "('k \<times> 'v) list \<Rightarrow> 'k list" where
  "keys al = map fst al"

lemma keys_update [simp]:
  "keys (AList.update k v al) = (if k \<in> set (keys al) then keys al else keys al @ [k])"
  by (induction al) (auto simp: keys_def)

lemma keys_map_entry [simp]: "keys (AList.map_entry k f al) = keys al"
  by (induction al) (auto simp: keys_def)

lemma map_of_None_keys: "(map_of al k = None) = (k \<notin> set (keys al))"
  by (simp add: keys_def map_of_eq_None_iff)

lemma map_of_Some_keys: "map_of al k = Some v \<Longrightarrow> k \<in> set (keys al)"
  by (auto simp: keys_def dest: map_of_SomeD intro: rev_image_eqI)

lemma map_entry_notin [simp]: "k \<notin> set (keys al) \<Longrightarrow> AList.map_entry k f al = al"
  by (induction al) (auto simp: keys_def)

lemma map_of_map_entry_eq [simp]:
  "map_of (AList.map_entry k f al) k = map_option f (map_of al k)"
  by (simp add: map_of_map_entry split: option.splits)

lemma map_of_map_entry_neq [simp]:
  "k' \<noteq> k \<Longrightarrow> map_of (AList.map_entry k f al) k' = map_of al k'"
  by (simp add: map_of_map_entry)

lemma map_of_update_eq [simp]: "map_of (AList.update k v al) k = Some v"
  by (simp add: update_conv')

lemma map_of_update_neq [simp]:
  "k' \<noteq> k \<Longrightarrow> map_of (AList.update k v al) k' = map_of al k'"
  by (simp add: update_conv')

text \<open>
  The values of an association list with distinct keys, after an in-place update of
  one entry: the same list with that one value changed, at the same position.
\<close>

lemma map_snd_map_entry:
  "map snd (AList.map_entry k f al) = map (\<lambda>p. if fst p = k then f (snd p) else snd p) al"
  if "distinct (keys al)"
  using that
proof (induction al)
  case Nil
  then show ?case by simp
next
  case (Cons p al)
  then have "distinct (keys al)" by (simp add: keys_def)
  show ?case
  proof (cases "fst p = k")
    case True
    with Cons.prems have "k \<notin> set (keys al)" by (simp add: keys_def)
    then have "\<forall>q \<in> set al. fst q \<noteq> k" by (auto simp: keys_def)
    with True show ?thesis by (cases p) simp
  next
    case False
    with Cons.IH \<open>distinct (keys al)\<close> show ?thesis by (cases p) simp
  qed
qed

lemma map_snd_update_new:
  "k \<notin> set (keys al) \<Longrightarrow> map snd (AList.update k v al) = map snd al @ [v]"
  by (induction al) (auto simp: keys_def)

lemma set_map_entry_cases:
  "p \<in> set (AList.map_entry k f al) \<Longrightarrow>
     p \<in> set al \<or> (\<exists>q \<in> set al. fst q = k \<and> p = (k, f (snd q)))"
  by (induction al) (auto split: if_splits)

lemma set_update_cases:
  "p \<in> set (AList.update k v al) \<Longrightarrow> p \<in> set al \<or> p = (k, v)"
  by (induction al) (auto split: if_splits)

end
