(* ===== verification/PyStr.thy ===== *)
theory PyStr
  imports Prelude
begin

text \<open>
  The Python string builtins the bot relies on, over \<^typ>\<open>pystr\<close> (code-point
  lists): \<open>str(n)\<close> for integers (the registry's dictionary keys are
  \<open>str(user_id)\<close>), \<open>int(s)\<close> (the operator's \<open>/reply\<close>, \<open>/block\<close> and
  \<open>/unblock\<close> arguments and the inline-button payload \<open>reply_<id>\<close>),
  \<open>str.split\<close>, \<open>str.join\<close>, \<open>str.startswith\<close>, slicing and \<open>range\<close> with a
  step (the 4096-code-point split of the user listing in \<open>users_command\<close>).
  The main facts: \<open>int(str(n)) = n\<close>, hence \<open>str\<close> is injective on integers;
  splitting the button payload recovers the id; and the chunks of the listing
  concatenate back to the listing.
\<close>

section \<open>Literals\<close>

definition ascii :: "string \<Rightarrow> pystr" where
  "ascii s = map of_char s"

lemma ascii_Nil [simp]: "ascii [] = []"
  and ascii_Cons [simp]: "ascii (c # s) = of_char c # ascii s"
  and ascii_append [simp]: "ascii (s @ t) = ascii s @ ascii t"
  by (simp_all add: ascii_def)

section \<open>\<open>str\<close> of an integer\<close>

definition is_digit_cp :: "nat \<Rightarrow> bool" where
  "is_digit_cp c \<longleftrightarrow> 48 \<le> c \<and> c \<le> 57"

fun str_nat :: "nat \<Rightarrow> pystr" where
  "str_nat n = (if n < 10 then [48 + n] else str_nat (n div 10) @ [48 + n mod 10])"

declare str_nat.simps [simp del]

text \<open>Python's \<open>str(i)\<close>: a minus sign, then the decimal digits of \<open>|i|\<close>.\<close>

definition str_int :: "int \<Rightarrow> pystr" where
  "str_int i = (if i < 0 then 45 # str_nat (nat (- i)) else str_nat (nat i))"

section \<open>\<open>int\<close> of a string\<close>

text \<open>
  The whitespace \<open>int()\<close> strips from both ends: the ASCII characters tab to
  carriage return and space (\<open>PyLong_FromString\<close>), and the non-ASCII
  \<open>str.isspace\<close> characters (next-line, no-break space, the Unicode space
  separators), which \<open>_PyUnicode_TransformDecimalAndSpaceToASCII\<close> first turns
  into spaces.  The information separators U+001C to U+001F are \<open>str.isspace\<close>
  but ASCII, so \<open>int()\<close> does not strip them: \<open>int(chr(28) + '5')\<close> raises.
\<close>

definition int_space :: "nat \<Rightarrow> bool" where
  "int_space c \<longleftrightarrow> (9 \<le> c \<and> c \<le> 13) \<or> c = 32 \<or> c = 133 \<or> c = 160 \<or>
     c = 5760 \<or> (8192 \<le> c \<and> c \<le> 8202) \<or> c = 8232 \<or> c = 8233 \<or> c = 8239 \<or>
     c = 8287 \<or> c = 12288"

definition py_strip :: "pystr \<Rightarrow> pystr" where
  "py_strip s = rev (dropWhile int_space (rev (dropWhile int_space s)))"

fun no_double_us :: "pystr \<Rightarrow> bool" where
  "no_double_us (a # b # cs) = (\<not> (a = 95 \<and> b = 95) \<and> no_double_us (b # cs))"
| "no_double_us _ = True"

text \<open>
  The digit part accepted by \<open>int(s)\<close> in base 10: \<open>digit ("_"? digit)*\<close>,
  i.e.\ non-empty, digits and underscores only, starting and ending with a digit, no
  two underscores in a row.
\<close>

definition digits_ok :: "pystr \<Rightarrow> bool" where
  "digits_ok s \<longleftrightarrow> s \<noteq> [] \<and> is_digit_cp (hd s) \<and> is_digit_cp (last s) \<and>
     list_all (\<lambda>c. is_digit_cp c \<or> c = 95) s \<and> no_double_us s"

definition digits_val :: "pystr \<Rightarrow> nat" where
  "digits_val s = foldl (\<lambda>acc c. 10 * acc + (c - 48)) 0 (filter is_digit_cp s)"

definition unsigned_val :: "pystr \<Rightarrow> int option" where
  "unsigned_val r = (if digits_ok r then Some (int (digits_val r)) else None)"

text \<open>Python's \<open>int(s)\<close>; \<^const>\<open>None\<close> is the \<open>ValueError\<close> it raises.\<close>

definition py_int :: "pystr \<Rightarrow> int option" where
  "py_int s0 =
     (case py_strip s0 of
        [] \<Rightarrow> None
      | c # r \<Rightarrow>
          (if c = 45 then map_option uminus (unsigned_val r)
           else if c = 43 then unsigned_val r
           else unsigned_val (c # r)))"

section \<open>\<open>split\<close>, \<open>join\<close>, \<open>startswith\<close>\<close>

text \<open>\<open>s.split(sep)\<close> for a one-character separator: every occurrence splits.\<close>

fun py_split :: "nat \<Rightarrow> pystr \<Rightarrow> pystr list" where
  "py_split sep [] = [[]]"
| "py_split sep (c # cs) =
     (if c = sep then [] # py_split sep cs
      else (case py_split sep cs of w # ws \<Rightarrow> (c # w) # ws | [] \<Rightarrow> [[c]]))"

text \<open>\<open>sep.join(xs)\<close>.\<close>

fun py_join :: "pystr \<Rightarrow> pystr list \<Rightarrow> pystr" where
  "py_join sep [] = []"
| "py_join sep [x] = x"
| "py_join sep (x # xs) = x @ sep @ py_join sep xs"

definition py_startswith :: "pystr \<Rightarrow> pystr \<Rightarrow> bool" where
  "py_startswith s p \<longleftrightarrow> prefix p s"

text \<open>
  \<open>v or d\<close> for \<open>v : str | None\<close>: \<open>None\<close> and the empty string are false.
\<close>

fun py_or :: "pystr option \<Rightarrow> pystr \<Rightarrow> pystr" where
  "py_or None d = d"
| "py_or (Some v) d = (if v = [] then d else v)"

text \<open>An f-string field \<open>{v}\<close> for \<open>v : str | None\<close>: \<open>None\<close> prints as \<open>None\<close>.\<close>

fun py_str_opt :: "pystr option \<Rightarrow> pystr" where
  "py_str_opt None = ascii ''None''"
| "py_str_opt (Some v) = v"

text \<open>\<open>xs[-n:]\<close>: the last \<open>n\<close> elements, or all of them if there are fewer.\<close>

definition py_last :: "nat \<Rightarrow> 'a list \<Rightarrow> 'a list" where
  "py_last n xs = drop (length xs - n) xs"

text \<open>\<open>xs[i]\<close> for a non-negative index; \<open>IndexError\<close> out of range.\<close>

definition py_index :: "'a list \<Rightarrow> nat \<Rightarrow> py_error + 'a" where
  "py_index xs i = (if i < length xs then Inr (xs ! i) else Inl IndexError)"

section \<open>Slices and stepped ranges\<close>

text \<open>\<open>s[i:j]\<close> for \<open>0 \<le> i\<close>, \<open>0 \<le> j\<close> (Python clips both bounds to the length).\<close>

definition py_slice :: "'a list \<Rightarrow> nat \<Rightarrow> nat \<Rightarrow> 'a list" where
  "py_slice s i j = take (j - i) (drop i s)"

text \<open>\<open>range(start, stop, step)\<close> for a positive step.\<close>

function py_range :: "nat \<Rightarrow> nat \<Rightarrow> nat \<Rightarrow> nat list" where
  "py_range start stop step =
     (if start < stop \<and> 0 < step then start # py_range (start + step) stop step else [])"
  by pat_completeness auto
termination
  by (relation "measure (\<lambda>(start, stop, step). stop - start)") auto

declare py_range.simps [simp del]

text \<open>
  The split of \<open>users_command\<close>:
  \<open>[message[x:x+n] for x in range(0, len(message), n)]\<close>.
\<close>

definition split_chunks :: "nat \<Rightarrow> 'a list \<Rightarrow> 'a list list" where
  "split_chunks n s = map (\<lambda>x. py_slice s x (x + n)) (py_range 0 (length s) n)"

text \<open>The reference definition: take a chunk, recurse on the rest.\<close>

function chunks :: "nat \<Rightarrow> 'a list \<Rightarrow> 'a list list" where
  "chunks n s = (if s = [] \<or> n = 0 then [] else take n s # chunks n (drop n s))"
  by pat_completeness auto
termination
  by (relation "measure (\<lambda>(n, s). length s)") auto

declare chunks.simps [simp del]

section \<open>Lemmas: \<open>str\<close> and \<open>int\<close>\<close>

lemma str_nat_nonempty [simp]: "str_nat n \<noteq> []"
  by (subst str_nat.simps) simp

lemma str_nat_digits: "list_all is_digit_cp (str_nat n)"
proof (induction n rule: str_nat.induct)
  case (1 n)
  then show ?case
    by (subst str_nat.simps) (auto simp: is_digit_cp_def list_all_iff)
qed

lemma str_nat_hd_digit: "is_digit_cp (hd (str_nat n))"
  using str_nat_digits [of n] str_nat_nonempty [of n]
  by (cases "str_nat n") auto

lemma str_nat_last_digit: "is_digit_cp (last (str_nat n))"
  using str_nat_digits [of n] str_nat_nonempty [of n]
  by (simp add: list_all_iff)

lemma digits_no_us: "list_all is_digit_cp s \<Longrightarrow> no_double_us s"
  by (induction s rule: no_double_us.induct) (auto simp: is_digit_cp_def)

lemma digits_ok_str_nat: "digits_ok (str_nat n)"
  using str_nat_digits [of n]
  by (auto simp: digits_ok_def str_nat_hd_digit str_nat_last_digit digits_no_us
      list_all_iff)

lemma digits_val_snoc:
  "is_digit_cp c \<Longrightarrow> digits_val (s @ [c]) = 10 * digits_val s + (c - 48)"
  by (simp add: digits_val_def)

lemma digits_val_str_nat: "digits_val (str_nat n) = n"
proof (induction n rule: str_nat.induct)
  case (1 n)
  show ?case
  proof (cases "n < 10")
    case True
    then show ?thesis
      by (subst str_nat.simps) (simp add: digits_val_def is_digit_cp_def)
  next
    case False
    then have "digits_val (str_nat n) = 10 * digits_val (str_nat (n div 10)) + n mod 10"
      by (subst str_nat.simps) (simp add: digits_val_snoc is_digit_cp_def)
    with False "1.IH" show ?thesis by simp
  qed
qed

lemma unsigned_val_str_nat: "unsigned_val (str_nat n) = Some (int n)"
  by (simp add: unsigned_val_def digits_ok_str_nat digits_val_str_nat)

lemma str_nat_not_space: "\<not> int_space (hd (str_nat n))" "\<not> int_space (last (str_nat n))"
  using str_nat_hd_digit [of n] str_nat_last_digit [of n]
  by (auto simp: is_digit_cp_def int_space_def)

lemma py_strip_id:
  assumes "s \<noteq> []" "\<not> int_space (hd s)" "\<not> int_space (last s)"
  shows "py_strip s = s"
proof -
  have strip_front: "dropWhile int_space s = s"
    using assms(1,2) by (cases s) auto
  from assms(1) obtain ys y where s: "s = ys @ [y]"
    by (cases s rule: rev_cases) auto
  with assms(3) have strip_back: "dropWhile int_space (rev s) = rev s"
    by simp
  from strip_front strip_back show ?thesis by (simp add: py_strip_def)
qed

lemma py_strip_str_int: "py_strip (str_int i) = str_int i"
  using str_nat_not_space
  by (auto simp: str_int_def int_space_def intro!: py_strip_id)

lemma str_nat_hd_not_sign: "hd (str_nat n) \<noteq> 45" "hd (str_nat n) \<noteq> 43"
  using str_nat_hd_digit [of n] by (auto simp: is_digit_cp_def)

lemma no_us_str_nat: "95 \<notin> set (str_nat n)"
  using str_nat_digits [of n] by (auto simp: list_all_iff is_digit_cp_def)

lemma no_us_str_int: "95 \<notin> set (str_int i)"
  using no_us_str_nat by (simp add: str_int_def)

lemma int_of_str_int: "py_int (str_int i) = Some i"
proof (cases "i < 0")
  case True
  then have "py_strip (str_int i) = 45 # str_nat (nat (- i))"
    by (simp add: py_strip_str_int) (simp add: str_int_def)
  with True show ?thesis
    by (simp add: py_int_def unsigned_val_str_nat)
next
  case False
  obtain c r where cr: "str_nat (nat i) = c # r"
    using str_nat_nonempty by (cases "str_nat (nat i)") auto
  with str_nat_hd_not_sign [of "nat i"] have "c \<noteq> 45" "c \<noteq> 43" by auto
  moreover have "py_strip (str_nat (nat i)) = str_nat (nat i)"
    using py_strip_str_int [of i] False by (simp add: str_int_def)
  ultimately show ?thesis
    using False unsigned_val_str_nat [of "nat i"] cr
    by (simp add: py_int_def str_int_def)
qed

lemma str_int_inj: "str_int a = str_int b \<Longrightarrow> a = b"
  by (metis int_of_str_int option.inject)

section \<open>Lemmas: \<open>split\<close>\<close>

lemma py_split_no_sep: "sep \<notin> set s \<Longrightarrow> py_split sep s = [s]"
  by (induction s) auto

lemma py_split_append_sep:
  "sep \<notin> set p \<Longrightarrow> py_split sep (p @ sep # s) = p # py_split sep s"
  by (induction p) auto

lemma py_split_prefixed_int:
  "sep \<notin> set p \<Longrightarrow> py_split sep (p @ sep # str_int i) = (if sep = 95 then [p, str_int i] else p # py_split sep (str_int i))"
  using no_us_str_int [of i] by (auto simp: py_split_append_sep py_split_no_sep)

section \<open>Lemmas: chunks\<close>

lemma split_chunks_from:
  "map (\<lambda>x. py_slice s x (x + n)) (py_range k (length s) n) = chunks n (drop k s)"
proof (induction k "length s" n rule: py_range.induct)
  case (1 k n)
  show ?case
  proof (cases "k < length s \<and> 0 < n")
    case True
    then have "chunks n (drop k s) = take n (drop k s) # chunks n (drop (k + n) s)"
      by (subst chunks.simps) (simp add: add.commute)
    with True "1" show ?thesis
      by (subst py_range.simps) (simp add: py_slice_def)
  next
    case False
    then show ?thesis
      by (subst py_range.simps, subst chunks.simps) auto
  qed
qed

lemma concat_chunks: "0 < n \<Longrightarrow> concat (chunks n s) = s"
proof (induction n s rule: chunks.induct)
  case (1 n s)
  then show ?case
    by (subst chunks.simps) simp
qed

lemma chunks_bounded: "c \<in> set (chunks n s) \<Longrightarrow> c \<noteq> [] \<and> length c \<le> n"
proof (induction n s rule: chunks.induct)
  case (1 n s)
  then show ?case
    by (subst (asm) chunks.simps) (auto split: if_splits)
qed

lemma chunks_short: "0 < n \<Longrightarrow> s \<noteq> [] \<Longrightarrow> length s \<le> n \<Longrightarrow> chunks n s = [s]"
  by (subst chunks.simps) (simp add: chunks.simps [of n "[]"])

end
