(* ===== verification/Registry.thy ===== *)
theory Registry
  imports PyStr
begin

text \<open>
  The user registry, class \<open>UserDatabase\<close> of \<open>src/database.py\<close>.  Its state is
  the JSON document \<open>self.data\<close> (\<open>db_data\<close>): a dictionary \<open>users\<close> from
  \<open>str(user_id)\<close> to a user record, kept in insertion order, and a dictionary
  \<open>admin_messages\<close> that no method reads or writes.  The file \<open>self.db_file\<close>
  is modelled by \<open>db_file_state\<close>: absent, holding a document, or unreadable.
  Every mutating method ends in \<open>_save_data\<close>, which writes the whole document;
  the ghost counter \<open>saves\<close> counts those writes, so that "a write happens" is
  observable.  \<open>datetime.now().isoformat()\<close> is the parameter \<open>now\<close>.

  The lemmas show: every method keeps the registry well formed (keys are
  \<open>str(user_id)\<close> and distinct) and durable (reloading the file gives the
  in-memory document); \<open>add_user\<close> is an idempotent upsert that appends new users
  at the end; \<open>add_message\<close> appends exactly one message to one user's timeline
  and silently does nothing for an unknown id; \<open>deactivate_user\<close> and
  \<open>activate_user\<close> flip one flag; \<open>get_all_users\<close> lists the active users in
  registration order; and the registry refines a finite map from ids to users.
\<close>

section \<open>Data\<close>

text \<open>A message dictionary, \<open>{"text", "timestamp", "is_from_admin"}\<close>.\<close>

record message =
  msg_text :: pystr
  timestamp :: pystr
  is_from_admin :: bool

text \<open>
  A user dictionary as \<open>add_user\<close> creates it.  \<open>username\<close> and
  \<open>first_name\<close> are \<open>str | None\<close>.  Every record the code creates carries the
  \<open>is_active\<close> key, so the default of \<open>user.get("is_active", True)\<close> never applies
  to them.
\<close>

record user_rec =
  user_id :: int
  username :: "pystr option"
  first_name :: "pystr option"
  joined_date :: pystr
  messages :: "message list"
  is_active :: bool

record db_data =
  users :: "(pystr \<times> user_rec) list"
  admin_messages :: "(pystr \<times> pystr) list"

text \<open>
  What \<open>_load_data\<close> finds at \<open>self.db_file\<close>: no file, a JSON document, or a
  file \<open>json.load\<close> rejects with \<open>JSONDecodeError\<close>.
\<close>

datatype db_file_state = No_file | Stored db_data | Corrupt

record udb =
  db_file :: pystr
  data :: db_data
  disk :: db_file_state
  saves :: nat

section \<open>Operations\<close>

definition empty_data :: db_data where
  "empty_data = \<lparr>users = [], admin_messages = []\<rparr>"

fun load_data :: "db_file_state \<Rightarrow> db_data" where
  "load_data No_file = empty_data"
| "load_data Corrupt = empty_data"
| "load_data (Stored d) = d"

definition init_db :: "pystr \<Rightarrow> db_file_state \<Rightarrow> udb" where
  "init_db f fs = \<lparr>db_file = f, data = load_data fs, disk = fs, saves = 0\<rparr>"

definition save_data :: "udb \<Rightarrow> udb" where
  "save_data s = s\<lparr>disk := Stored (data s), saves := Suc (saves s)\<rparr>"

definition map_users ::
  "((pystr \<times> user_rec) list \<Rightarrow> (pystr \<times> user_rec) list) \<Rightarrow> udb \<Rightarrow> udb" where
  "map_users f s = s\<lparr>data := (data s)\<lparr>users := f (users (data s))\<rparr>\<rparr>"

definition new_user :: "int \<Rightarrow> pystr option \<Rightarrow> pystr option \<Rightarrow> pystr \<Rightarrow> user_rec" where
  "new_user uid un fn now =
     \<lparr>user_id = uid, username = un, first_name = fn, joined_date = now,
      messages = [], is_active = True\<rparr>"

definition add_user :: "int \<Rightarrow> pystr option \<Rightarrow> pystr option \<Rightarrow> pystr \<Rightarrow> udb \<Rightarrow> udb" where
  "add_user uid un fn now s =
     (if str_int uid \<notin> set (keys (users (data s)))
      then save_data (map_users (AList.update (str_int uid) (new_user uid un fn now)) s)
      else s)"

definition get_user :: "int \<Rightarrow> udb \<Rightarrow> user_rec option" where
  "get_user uid s = map_of (users (data s)) (str_int uid)"

definition new_message :: "pystr \<Rightarrow> pystr \<Rightarrow> bool \<Rightarrow> message" where
  "new_message txt now adm = \<lparr>msg_text = txt, timestamp = now, is_from_admin = adm\<rparr>"

definition add_message :: "int \<Rightarrow> pystr \<Rightarrow> bool \<Rightarrow> pystr \<Rightarrow> udb \<Rightarrow> udb" where
  "add_message uid txt adm now s =
     (case get_user uid s of
        None \<Rightarrow> s
      | Some _ \<Rightarrow>
          save_data (map_users (AList.map_entry (str_int uid)
            (\<lambda>u. u\<lparr>messages := messages u @ [new_message txt now adm]\<rparr>)) s))"

definition get_user_messages :: "int \<Rightarrow> udb \<Rightarrow> message list" where
  "get_user_messages uid s = (case get_user uid s of None \<Rightarrow> [] | Some u \<Rightarrow> messages u)"

definition get_all_users :: "udb \<Rightarrow> user_rec list" where
  "get_all_users s = filter is_active (map snd (users (data s)))"

definition deactivate_user :: "int \<Rightarrow> udb \<Rightarrow> udb" where
  "deactivate_user uid s =
     (if str_int uid \<in> set (keys (users (data s)))
      then save_data (map_users (AList.map_entry (str_int uid) (\<lambda>u. u\<lparr>is_active := False\<rparr>)) s)
      else s)"

definition activate_user :: "int \<Rightarrow> udb \<Rightarrow> udb" where
  "activate_user uid s =
     (if str_int uid \<in> set (keys (users (data s)))
      then save_data (map_users (AList.map_entry (str_int uid) (\<lambda>u. u\<lparr>is_active := True\<rparr>)) s)
      else s)"

section \<open>Invariant\<close>

text \<open>
  Well-formedness: each key is \<open>str\<close> of the stored \<open>user_id\<close>, and keys are
  distinct (a dictionary).  Durability: the file, reloaded, gives the document in
  memory.
\<close>

definition wf_users :: "(pystr \<times> user_rec) list \<Rightarrow> bool" where
  "wf_users us \<longleftrightarrow> distinct (keys us) \<and> list_all (\<lambda>(k, u). k = str_int (user_id u)) us"

definition reg_inv :: "udb \<Rightarrow> bool" where
  "reg_inv s \<longleftrightarrow> wf_users (users (data s)) \<and> load_data (disk s) = data s"

text \<open>
  How the registry may change from one state to a later one: no timeline loses,
  changes or reorders an entry (each is a prefix of its later self), and no record
  disappears or changes its id, join date or names.
\<close>

definition db_grows :: "udb \<Rightarrow> udb \<Rightarrow> bool" where
  "db_grows s s' \<longleftrightarrow>
     (\<forall>i. prefix (get_user_messages i s) (get_user_messages i s') \<and>
          (\<forall>u. get_user i s = Some u \<longrightarrow>
             (\<exists>u'. get_user i s' = Some u' \<and> user_id u' = user_id u \<and>
                  joined_date u' = joined_date u \<and> username u' = username u \<and>
                  first_name u' = first_name u)))"

text \<open>The abstraction: the registry as a finite map from ids to user records.\<close>

definition reg_abs :: "udb \<Rightarrow> int \<rightharpoonup> user_rec" where
  "reg_abs s = (\<lambda>uid. get_user uid s)"

section \<open>Abstract specification\<close>

text \<open>
  The registry contract of the design (upsert, append, set the flag), over the
  finite map \<^const>\<open>reg_abs\<close>.  An operation on an unknown id leaves the map as it is.
\<close>

definition upsert_spec :: "(int \<rightharpoonup> user_rec) \<Rightarrow> int \<Rightarrow> user_rec \<Rightarrow> (int \<rightharpoonup> user_rec)" where
  "upsert_spec m uid u = (case m uid of None \<Rightarrow> m(uid \<mapsto> u) | Some _ \<Rightarrow> m)"

definition append_spec :: "(int \<rightharpoonup> user_rec) \<Rightarrow> int \<Rightarrow> message \<Rightarrow> (int \<rightharpoonup> user_rec)" where
  "append_spec m uid msg =
     (case m uid of None \<Rightarrow> m | Some u \<Rightarrow> m(uid \<mapsto> u\<lparr>messages := messages u @ [msg]\<rparr>))"

definition set_active_spec :: "(int \<rightharpoonup> user_rec) \<Rightarrow> int \<Rightarrow> bool \<Rightarrow> (int \<rightharpoonup> user_rec)" where
  "set_active_spec m uid b = (case m uid of None \<Rightarrow> m | Some u \<Rightarrow> m(uid \<mapsto> u\<lparr>is_active := b\<rparr>))"

section \<open>Lemmas: state plumbing\<close>

lemma save_data_fields [simp]:
  "data (save_data s) = data s" "disk (save_data s) = Stored (data s)"
  "saves (save_data s) = Suc (saves s)" "db_file (save_data s) = db_file s"
  by (simp_all add: save_data_def)

lemma map_users_fields [simp]:
  "users (data (map_users f s)) = f (users (data s))"
  "admin_messages (data (map_users f s)) = admin_messages (data s)"
  "disk (map_users f s) = disk s" "saves (map_users f s) = saves s"
  "db_file (map_users f s) = db_file s"
  by (simp_all add: map_users_def)

lemma keys_map_of: "(k \<in> set (keys al)) = (map_of al k \<noteq> None)"
  by (simp add: map_of_None_keys)

lemma registered_iff: "(str_int uid \<in> set (keys (users (data s)))) = (get_user uid s \<noteq> None)"
  by (simp add: get_user_def map_of_None_keys)

lemma str_int_neq: "i \<noteq> uid \<Longrightarrow> str_int i \<noteq> str_int uid"
  using str_int_inj by blast

section \<open>Lemmas: well-formedness\<close>

lemma wf_users_Nil [simp]: "wf_users []"
  by (simp add: wf_users_def keys_def)

lemma wf_users_update_new:
  "wf_users us \<Longrightarrow> str_int (user_id u) \<notin> set (keys us) \<Longrightarrow>
     wf_users (AList.update (str_int (user_id u)) u us)"
proof -
  assume wf: "wf_users us" and new: "str_int (user_id u) \<notin> set (keys us)"
  then have "AList.update (str_int (user_id u)) u us = us @ [(str_int (user_id u), u)]"
    by (induction us) (auto simp: keys_def wf_users_def)
  with wf new show ?thesis by (simp add: wf_users_def keys_def)
qed

lemma wf_users_map_entry:
  "wf_users us \<Longrightarrow> (\<And>u. user_id (f u) = user_id u) \<Longrightarrow> wf_users (AList.map_entry k f us)"
  unfolding wf_users_def list_all_iff
  by (auto dest!: set_map_entry_cases)

lemma wf_users_member: "wf_users us \<Longrightarrow> (k, u) \<in> set us \<Longrightarrow> k = str_int (user_id u)"
  by (auto simp: wf_users_def list_all_iff)

lemma wf_users_lookup:
  "wf_users us \<Longrightarrow> map_of us (str_int uid) = Some u \<Longrightarrow> user_id u = uid"
  by (metis map_of_SomeD str_int_inj wf_users_member)

lemma get_user_id: "reg_inv s \<Longrightarrow> get_user uid s = Some u \<Longrightarrow> user_id u = uid"
  by (auto simp: reg_inv_def get_user_def intro: wf_users_lookup)

lemma reg_inv_save: "wf_users (users (data s)) \<Longrightarrow> reg_inv (save_data s)"
  by (simp add: reg_inv_def)

lemma reg_inv_init: "wf_users (users (load_data fs)) \<Longrightarrow> reg_inv (init_db f fs)"
  by (simp add: reg_inv_def init_db_def)

lemma reg_inv_add_user [intro]: "reg_inv s \<Longrightarrow> reg_inv (add_user uid un fn now s)"
  using wf_users_update_new [of _ "new_user uid un fn now"]
  by (auto simp: add_user_def reg_inv_def new_user_def intro: reg_inv_save)

lemma reg_inv_add_message [intro]: "reg_inv s \<Longrightarrow> reg_inv (add_message uid t a now s)"
  by (auto simp: add_message_def reg_inv_def wf_users_map_entry split: option.splits)

lemma reg_inv_deactivate [intro]: "reg_inv s \<Longrightarrow> reg_inv (deactivate_user uid s)"
  by (auto simp: deactivate_user_def reg_inv_def wf_users_map_entry)

lemma reg_inv_activate [intro]: "reg_inv s \<Longrightarrow> reg_inv (activate_user uid s)"
  by (auto simp: activate_user_def reg_inv_def wf_users_map_entry)

section \<open>Lemmas: characteristic equations\<close>

lemma get_user_add_user [registry_simps]:
  "get_user i (add_user uid un fn now s) =
     (if i = uid \<and> get_user uid s = None then Some (new_user uid un fn now) else get_user i s)"
  by (auto simp: add_user_def get_user_def map_of_None_keys str_int_neq)

lemma get_user_add_message [registry_simps]:
  "get_user i (add_message uid t a now s) =
     (if i = uid then map_option (\<lambda>u. u\<lparr>messages := messages u @ [new_message t now a]\<rparr>) (get_user uid s)
      else get_user i s)"
  by (auto simp: add_message_def get_user_def str_int_neq split: option.splits)

lemma get_user_deactivate [registry_simps]:
  "get_user i (deactivate_user uid s) =
     (if i = uid then map_option (\<lambda>u. u\<lparr>is_active := False\<rparr>) (get_user uid s) else get_user i s)"
  by (auto simp: deactivate_user_def get_user_def str_int_neq keys_map_of)

lemma get_user_activate [registry_simps]:
  "get_user i (activate_user uid s) =
     (if i = uid then map_option (\<lambda>u. u\<lparr>is_active := True\<rparr>) (get_user uid s) else get_user i s)"
  by (auto simp: activate_user_def get_user_def str_int_neq keys_map_of)

lemma saves_add_user [registry_simps]:
  "saves (add_user uid un fn now s) = (if get_user uid s = None then Suc (saves s) else saves s)"
  by (simp add: add_user_def registered_iff)

lemma saves_deactivate [registry_simps]:
  "saves (deactivate_user uid s) = (if get_user uid s = None then saves s else Suc (saves s))"
  by (simp add: deactivate_user_def registered_iff)

lemma saves_activate [registry_simps]:
  "saves (activate_user uid s) = (if get_user uid s = None then saves s else Suc (saves s))"
  by (simp add: activate_user_def registered_iff)

lemma saves_add_message [registry_simps]:
  "saves (add_message uid t a now s) = (if get_user uid s = None then saves s else Suc (saves s))"
  by (simp add: add_message_def split: option.splits)

lemma get_user_messages_add_message [registry_simps]:
  "get_user_messages i (add_message uid t a now s) =
     (if i = uid \<and> get_user uid s \<noteq> None then get_user_messages i s @ [new_message t now a]
      else get_user_messages i s)"
  by (auto simp: get_user_messages_def get_user_add_message split: option.splits)

lemma add_user_existing: "get_user uid s \<noteq> None \<Longrightarrow> add_user uid un fn now s = s"
  by (simp add: add_user_def registered_iff)

lemma get_all_users_add_user:
  "get_all_users (add_user uid un fn now s) =
     (if get_user uid s = None then get_all_users s @ [new_user uid un fn now] else get_all_users s)"
proof (cases "get_user uid s = None")
  case True
  then have "str_int uid \<notin> set (keys (users (data s)))" by (simp add: registered_iff)
  with True show ?thesis
    by (simp add: add_user_def get_all_users_def map_snd_update_new new_user_def)
next
  case False
  then show ?thesis by (simp add: add_user_existing)
qed

lemma get_all_users_map_entry:
  assumes "reg_inv s" and "\<And>u. user_id (f u) = user_id u"
  shows "get_all_users (map_users (AList.map_entry (str_int uid) f) s) =
    filter is_active (map (\<lambda>u. if user_id u = uid then f u else u) (map snd (users (data s))))"
proof -
  from assms(1) have wf: "wf_users (users (data s))" by (simp add: reg_inv_def)
  then have "\<forall>p \<in> set (users (data s)). (fst p = str_int uid) = (user_id (snd p) = uid)"
    by (metis prod.collapse str_int_inj wf_users_member)
  with wf show ?thesis
    by (simp add: get_all_users_def map_snd_map_entry wf_users_def comp_def cong: map_cong)
qed

lemma get_user_listed:
  assumes "reg_inv s" and "ud \<in> set (get_all_users s)"
  shows "get_user (user_id ud) s = Some ud"
proof -
  from assms(2) obtain k where k: "(k, ud) \<in> set (users (data s))"
    by (auto simp: get_all_users_def)
  from assms(1) have wf: "wf_users (users (data s))" by (simp add: reg_inv_def)
  from wf k have "k = str_int (user_id ud)" by (rule wf_users_member)
  with k wf show ?thesis
    by (simp add: get_user_def wf_users_def keys_def map_of_is_SomeI)
qed

lemma get_all_users_same_data:
  "get_all_users (deactivate_user uid s) =
     get_all_users (map_users (AList.map_entry (str_int uid) (\<lambda>u. u\<lparr>is_active := False\<rparr>)) s)"
  by (simp add: deactivate_user_def get_all_users_def)

lemma filter_deactivated:
  "filter is_active (map (\<lambda>u. if user_id u = uid then u\<lparr>is_active := False\<rparr> else u) xs) =
   filter (\<lambda>u. user_id u \<noteq> uid) (filter is_active xs)"
  by (induction xs) auto


lemmas registry_eval =
  add_user_def deactivate_user_def activate_user_def add_message_def get_all_users_def
  get_user_messages_def get_user_def init_db_def keys_def str_int_def str_nat.simps
  empty_data_def map_users_def save_data_def new_user_def new_message_def reg_inv_def
  wf_users_def

lemma db_grows_refl [intro]: "db_grows s s"
  by (auto simp: db_grows_def)

lemma db_grows_trans:
  assumes g12: "db_grows s1 s2" and g23: "db_grows s2 s3"
  shows "db_grows s1 s3"
  unfolding db_grows_def
proof (intro allI conjI impI)
  fix i
  from g12 have "prefix (get_user_messages i s1) (get_user_messages i s2)"
    by (simp add: db_grows_def)
  moreover from g23 have "prefix (get_user_messages i s2) (get_user_messages i s3)"
    by (simp add: db_grows_def)
  ultimately show "prefix (get_user_messages i s1) (get_user_messages i s3)"
    by (rule prefix_order.order_trans)
next
  fix i u
  assume "get_user i s1 = Some u"
  with g12 obtain u' where u': "get_user i s2 = Some u'" "user_id u' = user_id u"
    "joined_date u' = joined_date u" "username u' = username u" "first_name u' = first_name u"
    unfolding db_grows_def by blast
  from u'(1) g23 obtain u'' where "get_user i s3 = Some u''" "user_id u'' = user_id u'"
    "joined_date u'' = joined_date u'" "username u'' = username u'" "first_name u'' = first_name u'"
    unfolding db_grows_def by blast
  with u' show "\<exists>u''. get_user i s3 = Some u'' \<and> user_id u'' = user_id u \<and>
      joined_date u'' = joined_date u \<and> username u'' = username u \<and> first_name u'' = first_name u"
    by auto
qed

lemma db_grows_add_user [intro]: "db_grows s (add_user uid un fn now s)"
  by (auto simp: db_grows_def get_user_add_user get_user_messages_def)

lemma db_grows_add_message [intro]: "db_grows s (add_message uid t a now s)"
  by (auto simp: db_grows_def get_user_add_message get_user_messages_def split: option.splits)

lemma db_grows_deactivate [intro]: "db_grows s (deactivate_user uid s)"
  by (auto simp: db_grows_def get_user_deactivate get_user_messages_def split: option.splits)

lemma db_grows_activate [intro]: "db_grows s (activate_user uid s)"
  by (auto simp: db_grows_def get_user_activate get_user_messages_def split: option.splits)

section \<open>Properties of the registry\<close>

text \<open>
  (C12) Idempotent upsert: a second \<open>add_user\<close> for the same id changes nothing,
  whatever names and time it is given: one record, the first call's
  \<open>joined_date\<close>, \<open>username\<close> and \<open>first_name\<close>, and no second write of the file.
\<close>

theorem add_user_idempotent:
  "add_user uid un' fn' now' (add_user uid un fn now s) = add_user uid un fn now s"
  by (rule add_user_existing) (simp add: get_user_add_user)

text \<open>
  (C8) Refinement: seen as a finite map from ids to user records, \<open>add_user\<close> is an
  upsert, \<open>add_message\<close> appends one message to the timeline of a known id, and
  \<open>deactivate_user\<close>/\<open>activate_user\<close> set the flag of a known id; on an unknown id
  the last three leave the map as it is.
\<close>

theorem registry_refines_map:
  "reg_abs (add_user uid un fn now s) = upsert_spec (reg_abs s) uid (new_user uid un fn now) \<and>
   reg_abs (add_message uid t a now s) = append_spec (reg_abs s) uid (new_message t now a) \<and>
   reg_abs (deactivate_user uid s) = set_active_spec (reg_abs s) uid False \<and>
   reg_abs (activate_user uid s) = set_active_spec (reg_abs s) uid True"
  by (intro conjI ext)
     (auto simp: reg_abs_def upsert_spec_def append_spec_def set_active_spec_def registry_simps
       split: option.splits)

text \<open>
  (C23) Error path of \<open>add_message\<close>: for an id with no record it neither raises
  nor appends nor writes the file; the whole registry is unchanged.
\<close>

theorem add_message_unknown_noop:
  "get_user uid s = None \<Longrightarrow> add_message uid t a now s = s"
  by (simp add: add_message_def)

theorem add_message_unknown_noop_witness:
  "get_user 7 (init_db [] No_file) = None \<and>
   add_message 7 [104] False [] (init_db [] No_file) = init_db [] No_file"
proof -
  have h: "get_user 7 (init_db [] No_file) = None" by (simp add: registry_eval)
  show ?thesis using h add_message_unknown_noop [OF h] by simp
qed

text \<open>
  (C22) \<open>deactivate_user\<close> removes exactly the user with that id from the listing of
  active users and keeps the order of the others.
\<close>

theorem deactivate_hides_user:
  assumes "reg_inv s"
  shows "get_all_users (deactivate_user uid s) = filter (\<lambda>u. user_id u \<noteq> uid) (get_all_users s)"
proof -
  have "get_all_users (deactivate_user uid s) =
    filter is_active (map (\<lambda>u. if user_id u = uid then u\<lparr>is_active := False\<rparr> else u)
      (map snd (users (data s))))"
    using get_all_users_map_entry [OF assms] by (simp add: get_all_users_same_data)
  also have "\<dots> = filter (\<lambda>u. user_id u \<noteq> uid) (filter is_active (map snd (users (data s))))"
    by (rule filter_deactivated)
  finally show ?thesis by (simp only: get_all_users_def)
qed

theorem deactivate_hides_user_witness:
  "reg_inv (add_user 2 None None [] (add_user 1 None None [] (init_db [] No_file))) \<and>
   get_all_users (deactivate_user 1 (add_user 2 None None [] (add_user 1 None None [] (init_db [] No_file))))
     = [new_user 2 None None []]"
proof -
  let ?s = "add_user 2 None None [] (add_user 1 None None [] (init_db [] No_file))"
  have h: "reg_inv ?s" by (simp add: registry_eval)
  have "get_all_users ?s = [new_user 1 None None [], new_user 2 None None []]"
    by (simp add: registry_eval)
  with deactivate_hides_user [OF h, of 1] h show ?thesis by (simp add: new_user_def)
qed

end
