(* ===== verification/Bot.thy ===== *)
theory Bot
  imports Complex_Main Registry
begin

text \<open>
  The interface between the handlers of \<open>src/bot.py\<close> and their collaborators.
  The process keeps two globals (lines 15 and 18): the registry \<open>db\<close> and the reply
  target \<open>admin_current_chat\<close>; together they are the record \<open>bot\<close>.  A handler
  receives the Telegram user, message or callback data of one update and talks to
  the transport: \<open>reply_text\<close> to the chat the update came from,
  \<open>context.bot.send_message\<close> to a chat id, \<open>query.answer\<close> and
  \<open>query.edit_message_text\<close>.  Each call is an action of the outcome, in call
  order.  Only \<open>send_message\<close> can fail in this model: the environment's
  \<open>deliver\<close> says whether a send to a chat id succeeds or raises (with the
  exception's text); the handler's \<open>try\<close>/\<open>except\<close> sees that result.  The text a
  handler sends is a \<open>notice\<close>, one constructor per literal of \<open>bot.py\<close>,
  carrying the values the f-string interpolates.  An exception that escapes a
  handler is the outcome's \<open>raised\<close> field; the state changes made before it
  remain, as in Python.
\<close>

section \<open>Telegram objects\<close>

text \<open>\<open>update.effective_user\<close>: Telegram's \<open>first_name\<close> is always a string.\<close>

record tg_user =
  tg_id :: int
  tg_username :: "pystr option"
  tg_first_name :: pystr

text \<open>\<open>update.message\<close>: its text (absent for media) and caption.\<close>

record tg_message =
  tg_text :: "pystr option"
  tg_caption :: "pystr option"

text \<open>One inline button: its label and its \<open>callback_data\<close>.\<close>

record button =
  label :: pystr
  callback_data :: pystr

section \<open>Notices and actions\<close>

datatype notice =
    Admin_panel
  | Welcome pystr
  | Admin_help
  | Client_help
  | No_users_found
  | Users_text pystr
  | Statistics nat nat pystr
  | Usage_reply
  | Reply_from_team pystr
  | Reply_sent int
  | Reply_failed int pystr
  | Invalid_user_id
  | Usage_broadcast
  | Announcement pystr
  | Broadcast_completed nat nat
  | Usage_block
  | User_blocked int
  | Usage_unblock
  | User_unblocked int
  | You_are_blocked
  | New_message pystr pystr int pystr
  | Message_forwarded
  | Forward_error
  | No_active_users
  | Select_user "button list"
  | Replying_to pystr pystr int
  | User_not_found

datatype send_result = Sent | Send_failed pystr

datatype action =
    Reply_text notice
  | Send_message int notice send_result
  | Answer_query
  | Edit_message notice

section \<open>State, environment, outcome\<close>

record bot =
  db :: udb
  admin_current_chat :: "int option"

text \<open>
  What an update's handler reads besides the state: \<open>ADMIN_USER_ID\<close> of
  \<open>config.py\<close>, the clock \<open>datetime.now().isoformat()\<close>, and the transport's
  answer to each \<open>send_message\<close>.
\<close>

record env =
  admin_user_id :: int
  now :: pystr
  deliver :: "int \<Rightarrow> notice \<Rightarrow> send_result"

record outcome =
  post :: bot
  acts :: "action list"
  raised :: "py_error option"

definition finish :: "bot \<Rightarrow> action list \<Rightarrow> outcome" where
  "finish b as = \<lparr>post = b, acts = as, raised = None\<rparr>"

definition fail :: "bot \<Rightarrow> action list \<Rightarrow> py_error \<Rightarrow> outcome" where
  "fail b as err = \<lparr>post = b, acts = as, raised = Some err\<rparr>"

definition with_db :: "(udb \<Rightarrow> udb) \<Rightarrow> bot \<Rightarrow> bot" where
  "with_db f b = b\<lparr>db := f (db b)\<rparr>"

text \<open>The initial state of the process: \<open>db = UserDatabase(DB_FILE)\<close>, no reply target.\<close>

definition init_bot :: "pystr \<Rightarrow> db_file_state \<Rightarrow> bot" where
  "init_bot f fs = \<lparr>db = init_db f fs, admin_current_chat = None\<rparr>"

section \<open>Lemmas\<close>

lemma outcome_fields [simp]:
  "post (finish b as) = b" "acts (finish b as) = as" "raised (finish b as) = None"
  "post (fail b as err) = b" "acts (fail b as err) = as" "raised (fail b as err) = Some err"
  by (simp_all add: finish_def fail_def)

lemma with_db_fields [simp]:
  "db (with_db f b) = f (db b)" "admin_current_chat (with_db f b) = admin_current_chat b"
  by (simp_all add: with_db_def)

end
