(* ===== verification/Client.thy ===== *)
theory Client
  imports Bot
begin

text \<open>
  The client side of the relay in \<open>src/bot.py\<close>: \<open>start\<close> (registration on
  \<open>/start\<close>), \<open>help_command\<close> and \<open>handle_client_message\<close> (the forward of a
  client's message to the operator).  The lemmas show the three branches of
  \<open>handle_client_message\<close>: an active registered client's message is recorded
  first and then forwarded, whatever the forward's fate; a deactivated client is
  rejected with no state change; and a client that never sent \<open>/start\<close> is
  rejected in the same way, told that it is blocked, although the design says the
  message should register it.
\<close>

section \<open>Handlers\<close>

definition start :: "env \<Rightarrow> bot \<Rightarrow> tg_user \<Rightarrow> outcome" where
  "start e b u =
     (if tg_id u = admin_user_id e then finish b [Reply_text Admin_panel]
      else finish (with_db (add_user (tg_id u) (tg_username u) (Some (tg_first_name u)) (now e)) b)
             [Reply_text (Welcome (tg_first_name u))])"

definition help_command :: "env \<Rightarrow> bot \<Rightarrow> tg_user \<Rightarrow> outcome" where
  "help_command e b u =
     (if tg_id u = admin_user_id e then finish b [Reply_text Admin_help]
      else finish b [Reply_text Client_help])"

text \<open>\<open>message.text or message.caption or "Media message"\<close>.\<close>

definition message_text_of :: "tg_message \<Rightarrow> pystr" where
  "message_text_of m = py_or (tg_text m) (py_or (tg_caption m) (ascii ''Media message''))"

text \<open>The envelope sent to the operator, with \<open>user.username or 'No username'\<close>.\<close>

definition forward_notice :: "tg_user \<Rightarrow> pystr \<Rightarrow> notice" where
  "forward_notice u txt =
     New_message (tg_first_name u) (py_or (tg_username u) (ascii ''No username'')) (tg_id u) txt"

definition handle_client_message :: "env \<Rightarrow> bot \<Rightarrow> tg_user \<Rightarrow> tg_message \<Rightarrow> outcome" where
  "handle_client_message e b u m =
     (case get_user (tg_id u) (db b) of
        None \<Rightarrow> finish b [Reply_text You_are_blocked]
      | Some ud \<Rightarrow>
          if \<not> is_active ud then finish b [Reply_text You_are_blocked]
          else
            (let b1 = with_db (add_user (tg_id u) (tg_username u) (Some (tg_first_name u)) (now e)) b;
                 txt = message_text_of m;
                 b2 = with_db (add_message (tg_id u) txt False (now e)) b1;
                 fwd = forward_notice u txt;
                 r = deliver e (admin_user_id e) fwd
             in finish b2
                  [Send_message (admin_user_id e) fwd r,
                   Reply_text (case r of Sent \<Rightarrow> Message_forwarded | Send_failed _ \<Rightarrow> Forward_error)]))"

section \<open>Lemmas\<close>

lemma handle_client_message_rejected [handler_simps]:
  "get_user (tg_id u) (db b) = None \<or> (\<exists>ud. get_user (tg_id u) (db b) = Some ud \<and> \<not> is_active ud) \<Longrightarrow>
   handle_client_message e b u m = finish b [Reply_text You_are_blocked]"
  by (auto simp: handle_client_message_def)

lemma handle_client_message_active [handler_simps]:
  "get_user (tg_id u) (db b) = Some ud \<Longrightarrow> is_active ud \<Longrightarrow>
   handle_client_message e b u m =
     finish (with_db (add_message (tg_id u) (message_text_of m) False (now e)) b)
       [Send_message (admin_user_id e) (forward_notice u (message_text_of m))
          (deliver e (admin_user_id e) (forward_notice u (message_text_of m))),
        Reply_text (case deliver e (admin_user_id e) (forward_notice u (message_text_of m)) of
                      Sent \<Rightarrow> Message_forwarded | Send_failed _ \<Rightarrow> Forward_error)]"
  by (simp add: handle_client_message_def Let_def add_user_existing with_db_def)

lemmas client_eval = handle_client_message_def start_def forward_notice_def message_text_of_def
  init_bot_def with_db_def finish_def registry_eval

section \<open>Properties of the client path\<close>

text \<open>
  (C3) Record, then forward: a message from an active registered client appends
  exactly one entry, not from the operator, with the message's text, to that
  client's timeline, leaves every other user's record alone, sends the envelope to
  the operator, and answers the client with a confirmation or, when the send
  raised, an error notice.  The message is recorded whatever the send's outcome.
\<close>

theorem client_message_recorded_then_forwarded:
  assumes "get_user (tg_id u) (db b) = Some ud" and "is_active ud"
  shows "get_user_messages (tg_id u) (db (post (handle_client_message e b u m))) =
           messages ud @ [new_message (message_text_of m) (now e) False] \<and>
         (\<forall>i. i \<noteq> tg_id u \<longrightarrow> get_user i (db (post (handle_client_message e b u m))) = get_user i (db b)) \<and>
         acts (handle_client_message e b u m) =
           [Send_message (admin_user_id e) (forward_notice u (message_text_of m))
              (deliver e (admin_user_id e) (forward_notice u (message_text_of m))),
            Reply_text (if deliver e (admin_user_id e) (forward_notice u (message_text_of m)) = Sent
                        then Message_forwarded else Forward_error)] \<and>
         raised (handle_client_message e b u m) = None"
  using assms
  by (simp add: handle_client_message_active get_user_messages_add_message registry_simps
      get_user_messages_def split: send_result.split)

theorem client_message_recorded_then_forwarded_witness:
  "get_user 5 (db (with_db (add_user 5 None (Some [65]) []) (init_bot [] No_file))) =
     Some (new_user 5 None (Some [65]) []) \<and>
   is_active (new_user 5 None (Some [65]) []) \<and>
   get_user_messages 5 (db (post (handle_client_message
       \<lparr>admin_user_id = 1, now = [50], deliver = (\<lambda>_ _. Send_failed [])\<rparr>
       (with_db (add_user 5 None (Some [65]) []) (init_bot [] No_file))
       \<lparr>tg_id = 5, tg_username = None, tg_first_name = [65]\<rparr>
       \<lparr>tg_text = Some [104], tg_caption = None\<rparr>))) =
     [new_message [104] [50] False]"
proof -
  let ?b = "with_db (add_user 5 None (Some [65]) []) (init_bot [] No_file)"
  let ?u = "\<lparr>tg_id = 5, tg_username = None, tg_first_name = [65]\<rparr>"
  let ?e = "\<lparr>admin_user_id = 1, now = [50], deliver = (\<lambda>_ _. Send_failed [])\<rparr>"
  let ?m = "\<lparr>tg_text = Some [104], tg_caption = None\<rparr>"
  have h1: "get_user (tg_id ?u) (db ?b) = Some (new_user 5 None (Some [65]) [])"
    by (simp add: client_eval)
  have h2: "is_active (new_user 5 None (Some [65]) [])" by (simp add: new_user_def)
  have "message_text_of ?m = [104]" by (simp add: message_text_of_def)
  with client_message_recorded_then_forwarded [OF h1 h2, of ?e ?m] h1 h2
  show ?thesis by (simp add: new_user_def)
qed

text \<open>
  (C4) Block gating: a message from a deactivated client is answered with the
  blocked notice and nothing else; the registry (its timeline included), the file
  and the reply target are unchanged and nothing is sent to the operator.
\<close>

theorem blocked_client_rejected:
  "get_user (tg_id u) (db b) = Some ud \<Longrightarrow> \<not> is_active ud \<Longrightarrow>
   handle_client_message e b u m = finish b [Reply_text You_are_blocked]"
  by (rule handle_client_message_rejected) simp

theorem blocked_client_rejected_witness:
  "get_user 5 (db (with_db (deactivate_user 5 \<circ> add_user 5 None None []) (init_bot [] No_file))) =
     Some ((new_user 5 None None [])\<lparr>is_active := False\<rparr>) \<and>
   handle_client_message \<lparr>admin_user_id = 1, now = [], deliver = (\<lambda>_ _. Sent)\<rparr>
     (with_db (deactivate_user 5 \<circ> add_user 5 None None []) (init_bot [] No_file))
     \<lparr>tg_id = 5, tg_username = None, tg_first_name = [65]\<rparr> \<lparr>tg_text = Some [104], tg_caption = None\<rparr> =
   finish (with_db (deactivate_user 5 \<circ> add_user 5 None None []) (init_bot [] No_file)) [Reply_text You_are_blocked]"
proof -
  let ?b = "with_db (deactivate_user 5 \<circ> add_user 5 None None []) (init_bot [] No_file)"
  have h: "get_user (tg_id \<lparr>tg_id = 5, tg_username = None, tg_first_name = [65]\<rparr>) (db ?b) =
      Some ((new_user 5 None None [])\<lparr>is_active := False\<rparr>)"
    by (simp add: client_eval)
  show ?thesis
    using h blocked_client_rejected [OF h] by simp
qed

text \<open>
  (C15) A client with no record (one that never sent \<open>/start\<close>) is not registered by
  its message: the message is answered with the blocked notice, nothing is recorded
  or forwarded.  The design says the message should upsert the user and be relayed.
\<close>

theorem unregistered_client_rejected:
  "get_user (tg_id u) (db b) = None \<Longrightarrow>
   handle_client_message e b u m = finish b [Reply_text You_are_blocked]"
  by (rule handle_client_message_rejected) simp

theorem unregistered_client_rejected_witness:
  "get_user 5 (db (init_bot [] No_file)) = None \<and>
   handle_client_message \<lparr>admin_user_id = 1, now = [], deliver = (\<lambda>_ _. Sent)\<rparr> (init_bot [] No_file)
     \<lparr>tg_id = 5, tg_username = None, tg_first_name = [65]\<rparr> \<lparr>tg_text = Some [104], tg_caption = None\<rparr> =
   finish (init_bot [] No_file) [Reply_text You_are_blocked]"
proof -
  have h: "get_user (tg_id \<lparr>tg_id = 5, tg_username = None, tg_first_name = [65]\<rparr>) (db (init_bot [] No_file)) = None"
    by (simp add: client_eval)
  show ?thesis using h unregistered_client_rejected [OF h] by simp
qed

text \<open>
  (C25) \<open>/start\<close> from a client registers it (an upsert: a known client's record is
  kept as it is); \<open>/start\<close> from the operator registers nobody.
\<close>

theorem start_registers_client:
  "get_user (tg_id u) (db (post (start e b u))) =
     (if tg_id u \<noteq> admin_user_id e \<and> get_user (tg_id u) (db b) = None
      then Some (new_user (tg_id u) (tg_username u) (Some (tg_first_name u)) (now e))
      else get_user (tg_id u) (db b))"
  by (simp add: start_def get_user_add_user)

end
