(* ===== verification/PyFloat.thy ===== *)
theory PyFloat
  imports PyStr "HOL-Library.Log_Nat"
begin

text \<open>
  Python's \<open>float\<close> where the bot uses one: the true division \<open>a / b\<close> of two
  \<open>int\<close>s, which CPython rounds correctly to the nearest binary64 value (ties to an
  even significand, subnormals below \<open>2^-1022\<close>, \<open>OverflowError\<close> from \<open>2^1024\<close>
  on), and the format spec \<open>:.1f\<close>, which prints the exact binary value rounded to
  one decimal, ties to even.  A non-negative finite double is a pair \<open>(m, e)\<close> of
  value \<open>m * 2 powr e\<close>.  The rounding \<open>rne\<close> is executable; its lemmas show it is
  the rounding to the closest integer, ties to even.
\<close>

section \<open>Rounding\<close>

text \<open>\<open>a / b\<close> rounded to an integer, ties to even (\<open>b > 0\<close>).\<close>

definition rne :: "int \<Rightarrow> int \<Rightarrow> int" where
  "rne a b =
     (let q = a div b; r = a mod b in
      if 2 * r < b then q else if b < 2 * r then q + 1 else if even q then q else q + 1)"

text \<open>\<open>u * 2 powr j \<le> t\<close>, and \<open>t / (u * 2 powr j)\<close> rounded, over the integers.\<close>

definition ge_pow :: "int \<Rightarrow> int \<Rightarrow> int \<Rightarrow> bool" where
  "ge_pow t u j \<longleftrightarrow> (if 0 \<le> j then u * 2 ^ nat j \<le> t else u \<le> t * 2 ^ nat (- j))"

definition div_pow :: "int \<Rightarrow> int \<Rightarrow> int \<Rightarrow> int" where
  "div_pow t u j = (if 0 \<le> j then rne t (u * 2 ^ nat j) else rne (t * 2 ^ nat (- j)) u)"

section \<open>True division and formatting\<close>

text \<open>
  \<open>t / u\<close> for \<open>int\<close>s \<open>t, u \<ge> 0\<close> (CPython's \<open>long_true_divide\<close>): the exponent
  \<open>lg\<close> of the leading bit of the quotient, found from the bit lengths; the
  significand rounded to 53 bits, or to the subnormal grid \<open>2^-1074\<close>.
\<close>

definition py_truediv :: "nat \<Rightarrow> nat \<Rightarrow> py_error + int \<times> int" where
  "py_truediv t u =
     (if u = 0 then Inl ZeroDivisionError
      else if t = 0 then Inr (0, 0)
      else
        (let k = bitlen (int t) - bitlen (int u);
             lg = (if ge_pow (int t) (int u) k then k else k - 1);
             e = max (lg - 52) (-1074);
             m = div_pow (int t) (int u) e
         in if ge_pow m 1 (1024 - e) then Inl OverflowError else Inr (m, e)))"

text \<open>\<open>format(x, '.1f')\<close> of a non-negative double.\<close>

definition fmt_1f :: "int \<times> int \<Rightarrow> pystr" where
  "fmt_1f x =
     (case x of (m, e) \<Rightarrow>
        let n = div_pow (10 * m) 1 (- e) in str_int (n div 10) @ [46] @ str_int (n mod 10))"

section \<open>Lemmas\<close>

lemma pow2_int: "(2::real) powr real_of_int j = (if 0 \<le> j then 2 ^ nat j else 1 / 2 ^ nat (- j))"
  by (simp add: powr_realpow [symmetric] powr_minus_divide [symmetric])

lemma rne_cases:
  "(rne a b = a div b \<and> 2 * (a mod b) \<le> b) \<or> (rne a b = a div b + 1 \<and> b \<le> 2 * (a mod b))"
  by (auto simp: rne_def Let_def)

lemma rne_bound:
  assumes "0 < b"
  shows "\<bar>real_of_int (rne a b) - real_of_int a / real_of_int b\<bar> \<le> 1 / 2"
proof -
  define q r where "q = a div b" and "r = a mod b"
  have "a = q * b + r" by (simp add: q_def r_def)
  then have a: "real_of_int a / real_of_int b = q + r / b"
    using assms by (simp add: add_divide_distrib)
  have r: "0 \<le> r" "r < b" using assms by (simp_all add: r_def)
  have b: "0 < real_of_int b" and rb: "0 \<le> real_of_int r" "real_of_int r < real_of_int b"
    using assms r by simp_all
  from rne_cases [of a b] show ?thesis
  proof
    assume "rne a b = a div b \<and> 2 * (a mod b) \<le> b"
    then have "rne a b = q" "2 * r \<le> b" by (simp_all add: q_def r_def)
    moreover from this(2) have "2 * real_of_int r \<le> real_of_int b" by linarith
    ultimately
    show ?thesis using b rb by (auto simp: a abs_if divide_simps algebra_simps)
  next
    assume "rne a b = a div b + 1 \<and> b \<le> 2 * (a mod b)"
    then have "rne a b = q + 1" "b \<le> 2 * r" by (simp_all add: q_def r_def)
    moreover from this(2) have "real_of_int b \<le> 2 * real_of_int r" by linarith
    ultimately
    show ?thesis using b rb by (auto simp: a abs_if divide_simps algebra_simps)
  qed
qed


lemma rne_closest:
  assumes "0 < b"
  shows "\<bar>real_of_int (rne a b) - a / b\<bar> \<le> \<bar>real_of_int k - a / b\<bar>"
proof (cases "k = rne a b")
  case False
  then have "1 \<le> \<bar>k - rne a b\<bar>" by linarith
  then have "1 \<le> \<bar>real_of_int k - real_of_int (rne a b)\<bar>"
    by (metis of_int_1_le_iff of_int_abs of_int_diff)
  with rne_bound [OF assms, of a] show ?thesis by arith
qed simp

lemma rne_tie_even:
  assumes "0 < b" and "\<bar>real_of_int (rne a b) - a / b\<bar> = 1 / 2"
  shows "even (rne a b)"
proof -
  define q r where "q = a div b" and "r = a mod b"
  have "a = q * b + r" by (simp add: q_def r_def)
  then have x: "real_of_int a / real_of_int b = q + r / b"
    using assms(1) by (simp add: add_divide_distrib)
  have b: "0 < real_of_int b" "0 \<le> real_of_int r" "real_of_int r < real_of_int b"
    using assms(1) by (simp_all add: r_def)
  have "2 * r = b"
  proof (rule ccontr)
    assume ne: "2 * r \<noteq> b"
    show False
    proof (cases "2 * r < b")
      case True
      then have "rne a b = q" by (simp add: rne_def Let_def q_def r_def)
      moreover have "real_of_int (2 * r) < real_of_int b" using True by (simp only: of_int_less_iff)
      ultimately show False using assms(2) b by (auto simp: x abs_if divide_simps algebra_simps split: if_splits)
    next
      case False
      with ne have lt: "b < 2 * r" by simp
      then have "rne a b = q + 1" by (simp add: rne_def Let_def q_def r_def)
      moreover have "real_of_int b < real_of_int (2 * r)" using lt by (simp only: of_int_less_iff)
      ultimately show False using assms(2) b by (auto simp: x abs_if divide_simps algebra_simps split: if_splits)
    qed
  qed
  then show ?thesis by (simp add: rne_def Let_def q_def [symmetric] r_def [symmetric])
qed

lemma rne_nonneg: "0 \<le> a \<Longrightarrow> 0 < b \<Longrightarrow> 0 \<le> rne a b"
  using rne_cases [of a b] by (auto simp: pos_imp_zdiv_nonneg_iff)

lemma ge_pow_iff: "ge_pow t u j \<longleftrightarrow> real_of_int u * 2 powr j \<le> real_of_int t"
proof (cases "0 \<le> j")
  case True
  then have "real_of_int u * 2 powr j = real_of_int (u * 2 ^ nat j)" by (simp add: pow2_int)
  with True show ?thesis by (simp add: ge_pow_def del: of_int_mult)
next
  case False
  have "real_of_int u * 2 powr j \<le> t \<longleftrightarrow> real_of_int u \<le> real_of_int (t * 2 ^ nat (- j))"
    using False by (simp add: pow2_int divide_le_eq)
  with False show ?thesis by (simp add: ge_pow_def del: of_int_mult)
qed

lemma div_pow_bound:
  assumes "0 < u"
  shows "\<bar>real_of_int (div_pow t u j) - t / (u * 2 powr j)\<bar> \<le> 1 / 2"
proof (cases "0 \<le> j")
  case True
  have "(2::real) powr real_of_int j = 2 ^ nat j" using True by (simp add: pow2_int)
  with True rne_bound [of "u * 2 ^ nat j" t] assms show ?thesis by (simp add: div_pow_def)
next
  case False
  have "real_of_int t / (real_of_int u * 2 powr j) = real_of_int (t * 2 ^ nat (- j)) / u"
    using False by (simp add: pow2_int)
  with False rne_bound [of u "t * 2 ^ nat (- j)"] assms show ?thesis by (simp add: div_pow_def)
qed


lemma div_pow_nonneg: "0 \<le> t \<Longrightarrow> 0 < u \<Longrightarrow> 0 \<le> div_pow t u j"
  by (simp add: div_pow_def rne_nonneg)

text \<open>The exponent of the leading bit is found from the bit lengths, up to one.\<close>

lemma ge_pow_lead:
  assumes "0 < t" "0 < u"
  shows "ge_pow t u (bitlen t - bitlen u - 1)"
proof -
  have t: "2 ^ nat (bitlen t - 1) \<le> t" and u: "u < 2 ^ nat (bitlen u)"
    using bitlen_bounds [OF assms(1)] bitlen_bounds [OF assms(2)] by auto
  have bt: "1 \<le> bitlen t" using bitlen_eq_zero_iff [of t] bitlen_nonneg [of t] assms(1) by linarith
  have bu: "0 \<le> bitlen u" by (rule bitlen_nonneg)
  have U: "real_of_int u \<le> 2 powr bitlen u"
    using u bu by (simp add: pow2_int)
  have p: "(2::real) powr real_of_int (bitlen t - 1) = 2 ^ nat (bitlen t - 1)"
    using pow2_int [of "bitlen t - 1"] bt by simp
  have "real_of_int (2 ^ nat (bitlen t - 1)) \<le> real_of_int t"
    using t by (simp only: of_int_le_iff)
  then have T: "2 powr real_of_int (bitlen t - 1) \<le> real_of_int t"
    by (simp only: p of_int_power of_int_numeral)
  have "real_of_int u * 2 powr (bitlen t - bitlen u - 1) \<le> 2 powr bitlen u * 2 powr (bitlen t - bitlen u - 1)"
    using U by (intro mult_right_mono) simp_all
  also have "\<dots> = 2 powr (bitlen t - 1)"
    by (simp add: powr_add [symmetric])
  also note T
  finally have "real_of_int u * 2 powr (bitlen t - bitlen u - 1) \<le> real_of_int t" .
  then show ?thesis by (simp add: ge_pow_iff)
qed

lemma py_truediv_pos:
  assumes "0 < u" "0 < t"
  obtains lg where "ge_pow (int t) (int u) lg"
    "py_truediv t u =
       (let e = max (lg - 52) (-1074); m = div_pow (int t) (int u) e
        in if ge_pow m 1 (1024 - e) then Inl OverflowError else Inr (m, e))"
proof -
  let ?k = "bitlen (int t) - bitlen (int u)"
  let ?lg = "if ge_pow (int t) (int u) ?k then ?k else ?k - 1"
  have "ge_pow (int t) (int u) ?lg" using ge_pow_lead [of "int t" "int u"] assms by auto
  with that show ?thesis using assms by (simp add: py_truediv_def Let_def)
qed


text \<open>Rounding \<open>t / (u * 2 powr e)\<close> to an integer misses \<open>t / u\<close> by half a unit \<open>2 powr e\<close>.\<close>

lemma div_pow_scaled:
  assumes "0 < u"
  shows "\<bar>real_of_int (div_pow t u e) * 2 powr e - t / u\<bar> \<le> 2 powr e / 2"
proof -
  have "real_of_int (div_pow t u e) * 2 powr e - t / u = (real_of_int (div_pow t u e) - t / (u * 2 powr e)) * 2 powr e"
    using assms by (simp add: field_simps)
  then have eq: "\<bar>real_of_int (div_pow t u e) * 2 powr e - t / u\<bar> = \<bar>real_of_int (div_pow t u e) - t / (u * 2 powr e)\<bar> * 2 powr e"
    by (simp add: abs_mult)
  have "\<bar>real_of_int (div_pow t u e) - t / (u * 2 powr e)\<bar> * 2 powr e \<le> 1 / 2 * 2 powr e"
    by (rule mult_right_mono [OF div_pow_bound [OF assms]]) simp
  then show ?thesis using eq by simp
qed

lemma ge_pow_le_quot: "ge_pow (int t) (int u) lg \<Longrightarrow> 0 < u \<Longrightarrow> 2 powr lg \<le> real t / real u"
  by (simp add: ge_pow_iff field_simps)

lemma py_truediv_bound:
  assumes "py_truediv t u = Inr (m, e)"
  shows "0 \<le> m \<and> \<bar>real_of_int m * 2 powr e - real t / real u\<bar> \<le> max (real t / real u / 2 ^ 53) (2 powr - 1075)"
proof -
  have u: "0 < u" using assms by (auto simp: py_truediv_def split: if_splits)
  show ?thesis
  proof (cases "t = 0")
    case True
    with assms u show ?thesis by (simp add: py_truediv_def)
  next
    case False
    then have t: "0 < t" by simp
    from u t obtain lg where lg: "ge_pow (int t) (int u) lg"
      and d: "py_truediv t u =
       (let e = max (lg - 52) (-1074); m = div_pow (int t) (int u) e
        in if ge_pow m 1 (1024 - e) then Inl OverflowError else Inr (m, e))"
      by (rule py_truediv_pos)
    from assms d have e: "e = max (lg - 52) (-1074)" and m: "m = div_pow (int t) (int u) e"
      by (auto simp: Let_def split: if_splits)
    have "0 \<le> m" using u by (simp add: m div_pow_nonneg)
    moreover have err: "\<bar>real_of_int m * 2 powr e - real t / real u\<bar> \<le> 2 powr e / 2"
      using div_pow_scaled [of "int u" "int t" e] u by (simp add: m)
    moreover have "2 powr e / 2 \<le> max (real t / real u / 2 ^ 53) (2 powr - 1075)"
    proof (cases "e = lg - 52")
      case True
      have "2 powr lg \<le> real t / real u" using ge_pow_le_quot [OF lg u] .
      moreover have "2 powr e / 2 = 2 powr lg / 2 ^ 53"
        using True by (simp add: powr_diff powr_realpow [symmetric])
      ultimately show ?thesis by (simp add: divide_right_mono)
    next
      case False
      with e have "e = - 1074" by linarith
      then have "2 powr e / 2 = 2 powr - 1075" by (simp add: powr_diff [symmetric] powr_minus)
      then show ?thesis by simp
    qed
    ultimately show ?thesis by linarith
  qed
qed


text \<open>Below \<open>2^1023\<close>, the division does not overflow.\<close>

lemma py_truediv_ok:
  assumes "0 < u" and "t < 2 ^ 1023"
  shows "\<exists>m e. py_truediv t u = Inr (m, e)"
proof (cases "t = 0")
  case True
  with assms show ?thesis by (simp add: py_truediv_def)
next
  case False
  then have t: "0 < t" by simp
  from assms(1) t obtain lg where lg: "ge_pow (int t) (int u) lg"
    and d: "py_truediv t u =
       (let e = max (lg - 52) (-1074); m = div_pow (int t) (int u) e
        in if ge_pow m 1 (1024 - e) then Inl OverflowError else Inr (m, e))"
    by (rule py_truediv_pos)
  define e where "e = max (lg - 52) (-1074)"
  define m where "m = div_pow (int t) (int u) e"
  have "real t \<le> real t * real u" using assms(1) by (simp add: mult_le_cancel_left1)
  then have "real t / real u \<le> real t" using assms(1) by (simp add: divide_le_eq)
  moreover have "real t < 2 powr 1023"
    using assms(2) by (simp add: powr_realpow)
  ultimately have q: "real t / real u < 2 powr 1023" by linarith
  with ge_pow_le_quot [OF lg assms(1)] have "2 powr real_of_int lg < 2 powr 1023" by linarith
  then have "lg < 1023" by (subst (asm) powr_less_cancel_iff) simp_all
  then have "2 powr e \<le> 2 powr 970" by (intro powr_mono) (simp_all add: e_def)
  moreover have "\<bar>real_of_int m * 2 powr e - real t / real u\<bar> \<le> 2 powr e / 2"
    using div_pow_scaled [of "int u" "int t" e] assms(1) by (simp add: m_def)
  moreover have "(2::real) powr 1023 + 2 powr 970 / 2 < 2 powr 1024" by simp
  ultimately have lt: "real_of_int m * 2 powr e < 2 powr 1024" using q by linarith
  have "\<not> ge_pow m 1 (1024 - e)"
  proof
    assume "ge_pow m 1 (1024 - e)"
    then have "2 powr (1024 - e) * 2 powr e \<le> real_of_int m * 2 powr e"
      by (intro mult_right_mono) (simp_all add: ge_pow_iff)
    then show False using lt by (simp add: powr_add [symmetric])
  qed
  then show ?thesis by (simp add: d Let_def e_def [symmetric] m_def [symmetric])
qed

text \<open>\<open>format(x, '.1f')\<close> prints a decimal with one digit within \<open>1/20\<close> of \<open>x\<close>.\<close>

lemma fmt_1f_bound:
  assumes "0 \<le> m"
  shows "\<exists>n. fmt_1f (m, e) = str_int (n div 10) @ [46] @ str_int (n mod 10) \<and> 0 \<le> n \<and>
             \<bar>real_of_int n / 10 - real_of_int m * 2 powr e\<bar> \<le> 1 / 20"
proof (intro exI conjI)
  let ?n = "div_pow (10 * m) 1 (- e)"
  show "fmt_1f (m, e) = str_int (?n div 10) @ [46] @ str_int (?n mod 10)"
    by (simp add: fmt_1f_def Let_def)
  show "0 \<le> ?n" using assms by (simp add: div_pow_nonneg)
  have "\<bar>real_of_int ?n - real_of_int (10 * m) / (1 * 2 powr real_of_int (- e))\<bar> \<le> 1 / 2"
    using div_pow_bound [of 1 "10 * m" "- e"] by simp
  moreover have "real_of_int (10 * m) / (1 * 2 powr real_of_int (- e)) = 10 * (real_of_int m * 2 powr e)"
    by (simp add: powr_minus divide_inverse)
  ultimately have h: "\<bar>real_of_int ?n - 10 * (real_of_int m * 2 powr e)\<bar> \<le> 1 / 2" by simp
  have "real_of_int ?n / 10 - real_of_int m * 2 powr e = (real_of_int ?n - 10 * (real_of_int m * 2 powr e)) / 10"
    by (simp add: field_simps)
  then have "\<bar>real_of_int ?n / 10 - real_of_int m * 2 powr e\<bar> =
             \<bar>real_of_int ?n - 10 * (real_of_int m * 2 powr e)\<bar> / 10"
    by (simp only: abs_divide)
  then show "\<bar>real_of_int ?n / 10 - real_of_int m * 2 powr e\<bar> \<le> 1 / 20"
    using h by linarith
qed

end
