(* ===== verification/Admin.thy ===== *)
theory Admin
  imports Bot PyFloat
begin

text \<open>
  The operator side of \<open>src/bot.py\<close>: \<open>users_command\<close> (the listing, split into
  pieces of 4096 code points), \<open>stats_command\<close>, \<open>reply_command\<close> (a targeted reply,
  recorded only when delivered), \<open>block_command\<close>/\<open>unblock_command\<close>,
  \<open>handle_admin_message\<close> (a bare operator message offers the last five active users
  as buttons) and \<open>button_callback\<close> (a button press sets the reply target
  \<open>admin_current_chat\<close>, the ReplySession of the design).  Every command first checks
  \<open>effective_user.id == ADMIN_USER_ID\<close> and does nothing otherwise;
  \<open>button_callback\<close> has no such check.
\<close>

section \<open>Rendering of the user listing\<close>

text \<open>
  One user's block of the listing, literally as the f-strings of lines 83--88 build
  it, over code points (the emoji are single code points, the rule is thirty
  U+2500).  \<open>user.get('username', 'No username')\<close> returns the stored value, so
  a user without a username is listed as \<open>@None\<close>.
\<close>

definition user_block :: "user_rec \<Rightarrow> pystr" where
  "user_block u =
     [127380] @ ascii '' ID: '' @ str_int (user_id u) @ [10] @
     [128100] @ ascii '' Name: '' @ py_str_opt (first_name u) @ [10] @
     [128221] @ ascii '' Username: @'' @ py_str_opt (username u) @ [10] @
     [128197] @ ascii '' Joined: '' @ take 10 (joined_date u) @ [10] @
     [128172] @ ascii '' Messages: '' @ str_nat (length (messages u)) @ [10] @
     replicate 30 9472 @ [10]"

definition users_listing :: "user_rec list \<Rightarrow> pystr" where
  "users_listing us = [128101] @ ascii '' Active Users:'' @ [10, 10] @ concat (map user_block us)"

section \<open>Commands\<close>

definition users_command :: "env \<Rightarrow> bot \<Rightarrow> tg_user \<Rightarrow> outcome" where
  "users_command e b u =
     (if tg_id u \<noteq> admin_user_id e then finish b []
      else
        (let us = get_all_users (db b) in
         if us = [] then finish b [Reply_text No_users_found]
         else
           (let msg = users_listing us in
            if 4096 < length msg then finish b (map (\<lambda>c. Reply_text (Users_text c)) (split_chunks 4096 msg))
            else finish b [Reply_text (Users_text msg)])))"

text \<open>
  The three figures of \<open>stats_command\<close>.  The average is the f-string field
  \<open>{total_messages/total_users if total_users > 0 else 0:.1f}\<close>: the float
  quotient of two \<open>int\<close>s, or the \<open>int\<close> \<open>0\<close>, printed with one decimal.
\<close>

definition total_messages :: "user_rec list \<Rightarrow> nat" where
  "total_messages us = sum_list (map (\<lambda>u. length (messages u)) us)"

definition average_text :: "nat \<Rightarrow> nat \<Rightarrow> py_error + pystr" where
  "average_text msgs n =
     (if 0 < n then (case py_truediv msgs n of Inl err \<Rightarrow> Inl err | Inr x \<Rightarrow> Inr (fmt_1f x))
      else Inr (fmt_1f (0, 0)))"

definition stats_command :: "env \<Rightarrow> bot \<Rightarrow> tg_user \<Rightarrow> outcome" where
  "stats_command e b u =
     (if tg_id u \<noteq> admin_user_id e then finish b []
      else
        (let us = get_all_users (db b) in
         case average_text (total_messages us) (length us) of
           Inl err \<Rightarrow> fail b [] err
         | Inr a \<Rightarrow> finish b [Reply_text (Statistics (length us) (total_messages us) a)]))"

definition reply_command :: "env \<Rightarrow> bot \<Rightarrow> tg_user \<Rightarrow> pystr list \<Rightarrow> outcome" where
  "reply_command e b u args =
     (if tg_id u \<noteq> admin_user_id e then finish b []
      else if length args < 2 then finish b [Reply_text Usage_reply]
      else
        (case py_int (args ! 0) of
           None \<Rightarrow> finish b [Reply_text Invalid_user_id]
         | Some t \<Rightarrow>
             (let rm = py_join (ascii '' '') (drop 1 args);
                  n = Reply_from_team rm;
                  r = deliver e t n
              in case r of
                   Sent \<Rightarrow> finish (with_db (add_message t rm True (now e)) b)
                            [Send_message t n r, Reply_text (Reply_sent t)]
                 | Send_failed err \<Rightarrow> finish b [Send_message t n r, Reply_text (Reply_failed t err)])))"

definition block_command :: "env \<Rightarrow> bot \<Rightarrow> tg_user \<Rightarrow> pystr list \<Rightarrow> outcome" where
  "block_command e b u args =
     (if tg_id u \<noteq> admin_user_id e then finish b []
      else if length args \<noteq> 1 then finish b [Reply_text Usage_block]
      else
        (case py_int (args ! 0) of
           None \<Rightarrow> finish b [Reply_text Invalid_user_id]
         | Some t \<Rightarrow> finish (with_db (deactivate_user t) b) [Reply_text (User_blocked t)]))"

definition unblock_command :: "env \<Rightarrow> bot \<Rightarrow> tg_user \<Rightarrow> pystr list \<Rightarrow> outcome" where
  "unblock_command e b u args =
     (if tg_id u \<noteq> admin_user_id e then finish b []
      else if length args \<noteq> 1 then finish b [Reply_text Usage_unblock]
      else
        (case py_int (args ! 0) of
           None \<Rightarrow> finish b [Reply_text Invalid_user_id]
         | Some t \<Rightarrow> finish (with_db (activate_user t) b) [Reply_text (User_unblocked t)]))"

section \<open>Bare operator messages and the reply target\<close>

text \<open>A button of the selection keyboard: \<open>f"{first_name} ({user_id})"\<close>, \<open>reply_<id>\<close>.\<close>

definition user_button :: "user_rec \<Rightarrow> button" where
  "user_button u =
     \<lparr>label = py_str_opt (first_name u) @ ascii '' ('' @ str_int (user_id u) @ ascii '')'',
      callback_data = ascii ''reply_'' @ str_int (user_id u)\<rparr>"

text \<open>
  \<open>message.text.startswith('/')\<close> raises \<open>AttributeError\<close> when the operator's
  message has no text (a photo, a sticker).
\<close>

definition handle_admin_message :: "env \<Rightarrow> bot \<Rightarrow> tg_message \<Rightarrow> outcome" where
  "handle_admin_message e b m =
     (case tg_text m of
        None \<Rightarrow> fail b [] AttributeError
      | Some t \<Rightarrow>
          if py_startswith t (ascii ''/'') then finish b []
          else
            (let us = get_all_users (db b) in
             if us = [] then finish b [Reply_text No_active_users]
             else finish b [Reply_text (Select_user (map user_button (py_last 5 us)))]))"

definition button_callback :: "env \<Rightarrow> bot \<Rightarrow> pystr \<Rightarrow> outcome" where
  "button_callback e b d =
     (if py_startswith d (ascii ''reply_'') then
        (case py_index (py_split 95 d) 1 of
           Inl err \<Rightarrow> fail b [Answer_query] err
         | Inr part \<Rightarrow>
             (case py_int part of
                None \<Rightarrow> fail b [Answer_query] ValueError
              | Some uid \<Rightarrow>
                  (let b' = b\<lparr>admin_current_chat := Some uid\<rparr> in
                   case get_user uid (db b) of
                     Some ud \<Rightarrow> finish b' [Answer_query,
                                 Edit_message (Replying_to (py_str_opt (first_name ud))
                                   (py_str_opt (username ud)) uid)]
                   | None \<Rightarrow> finish b' [Answer_query, Edit_message User_not_found])))
      else finish b [Answer_query])"

section \<open>Lemmas\<close>

lemma users_listing_nonempty: "users_listing us \<noteq> []"
  by (simp add: users_listing_def)

lemma users_command_chunks:
  assumes "tg_id u = admin_user_id e" and "get_all_users (db b) \<noteq> []"
  shows "users_command e b u =
    finish b (map (\<lambda>c. Reply_text (Users_text c)) (chunks 4096 (users_listing (get_all_users (db b)))))"
proof (cases "4096 < length (users_listing (get_all_users (db b)))")
  case True
  have "split_chunks 4096 (users_listing (get_all_users (db b))) =
      chunks 4096 (users_listing (get_all_users (db b)))"
    using split_chunks_from [of _ 4096 0] by (simp add: split_chunks_def)
  with True assms show ?thesis by (simp add: users_command_def Let_def)
next
  case False
  then have "chunks 4096 (users_listing (get_all_users (db b))) = [users_listing (get_all_users (db b))]"
    by (simp add: chunks_short users_listing_nonempty)
  with False assms show ?thesis by (simp add: users_command_def Let_def)
qed

lemma average_text_bound:
  assumes "msgs < 2 ^ 1023"
  shows "\<exists>n. average_text msgs k = Inr (str_int (n div 10) @ [46] @ str_int (n mod 10)) \<and> 0 \<le> n \<and>
           \<bar>real_of_int n / 10 - real msgs / real k\<bar> \<le> 1 / 20 + max (real msgs / real k / 2 ^ 53) (2 powr - 1075)"
proof (cases "k = 0")
  case True
  then show ?thesis
    by (intro exI [of _ 0]) (simp add: average_text_def fmt_1f_def div_pow_def rne_def)
next
  case False
  then obtain m e where d: "py_truediv msgs k = Inr (m, e)"
    using py_truediv_ok [OF _ assms] by blast
  from py_truediv_bound [OF d] have m: "0 \<le> m"
    and err: "\<bar>real_of_int m * 2 powr e - real msgs / real k\<bar> \<le> max (real msgs / real k / 2 ^ 53) (2 powr - 1075)"
    by simp_all
  from fmt_1f_bound [OF m, of e] obtain n where f: "fmt_1f (m, e) = str_int (n div 10) @ [46] @ str_int (n mod 10)"
    and n: "0 \<le> n" "\<bar>real_of_int n / 10 - real_of_int m * 2 powr e\<bar> \<le> 1 / 20"
    by blast
  have "\<bar>real_of_int n / 10 - real msgs / real k\<bar> \<le>
          \<bar>real_of_int n / 10 - real_of_int m * 2 powr e\<bar> + \<bar>real_of_int m * 2 powr e - real msgs / real k\<bar>"
    using abs_triangle_ineq [of "real_of_int n / 10 - real_of_int m * 2 powr e" "real_of_int m * 2 powr e - real msgs / real k"]
    by simp
  then have "\<bar>real_of_int n / 10 - real msgs / real k\<bar> \<le> 1 / 20 + max (real msgs / real k / 2 ^ 53) (2 powr - 1075)"
    using n(2) err by linarith
  with False d f n(1) show ?thesis by (auto simp: average_text_def)
qed

lemma reply_command_parsed [handler_simps]:
  assumes "tg_id u = admin_user_id e" and "2 \<le> length args" and "py_int (args ! 0) = Some t"
  shows "reply_command e b u args =
    (let rm = py_join (ascii '' '') (drop 1 args); n = Reply_from_team rm in
     case deliver e t n of
       Sent \<Rightarrow> finish (with_db (add_message t rm True (now e)) b) [Send_message t n Sent, Reply_text (Reply_sent t)]
     | Send_failed err \<Rightarrow> finish b [Send_message t n (Send_failed err), Reply_text (Reply_failed t err)])"
  using assms by (simp add: reply_command_def Let_def split: send_result.split)

lemma reply_prefix_split:
  "py_split 95 (ascii ''reply_'' @ str_int i) = [ascii ''reply'', str_int i]"
  by (simp add: py_split_no_sep no_us_str_int)

lemma button_callback_reply [handler_simps]:
  "button_callback e b (ascii ''reply_'' @ str_int i) =
     (case get_user i (db b) of
        Some ud \<Rightarrow> finish (b\<lparr>admin_current_chat := Some i\<rparr>)
          [Answer_query, Edit_message (Replying_to (py_str_opt (first_name ud)) (py_str_opt (username ud)) i)]
      | None \<Rightarrow> finish (b\<lparr>admin_current_chat := Some i\<rparr>) [Answer_query, Edit_message User_not_found])"
  by (simp add: button_callback_def py_startswith_def reply_prefix_split py_index_def int_of_str_int
      Let_def del: ascii_Cons ascii_append)

lemmas admin_eval = users_command_def stats_command_def reply_command_def block_command_def
  unblock_command_def handle_admin_message_def total_messages_def average_text_def
  user_button_def init_bot_def with_db_def finish_def registry_eval

section \<open>Properties of the operator commands\<close>

text \<open>
  (C6) Reply atomicity: a well-formed \<open>/reply <id> <words>\<close> from the operator sends
  the joined words to the id; the reply is appended to the target's timeline, marked
  as from the operator, exactly when the send succeeded.  When the send raised, the
  whole state is unchanged and the operator is told of the failure.  The target's
  \<open>is_active\<close> flag plays no part: a blocked user can still be replied to.
\<close>

theorem reply_recorded_iff_delivered:
  assumes "tg_id u = admin_user_id e" and "2 \<le> length args" and "py_int (args ! 0) = Some t"
    and "get_user t (db b) = Some ud"
  shows "get_user_messages t (db (post (reply_command e b u args))) =
           (if deliver e t (Reply_from_team (py_join (ascii '' '') (drop 1 args))) = Sent
            then messages ud @ [new_message (py_join (ascii '' '') (drop 1 args)) (now e) True]
            else messages ud) \<and>
         (deliver e t (Reply_from_team (py_join (ascii '' '') (drop 1 args))) \<noteq> Sent \<longrightarrow>
            post (reply_command e b u args) = b)"
  using assms
  by (auto simp: reply_command_parsed get_user_messages_def registry_simps
      Let_def split: send_result.split)

theorem reply_recorded_iff_delivered_witness:
  "get_user 5 (db (with_db (deactivate_user 5 \<circ> add_user 5 None None []) (init_bot [] No_file))) =
     Some ((new_user 5 None None [])\<lparr>is_active := False\<rparr>) \<and>
   py_int (ascii ''5'') = Some 5 \<and>
   get_user_messages 5 (db (post (reply_command \<lparr>admin_user_id = 1, now = [50], deliver = (\<lambda>_ _. Sent)\<rparr>
       (with_db (deactivate_user 5 \<circ> add_user 5 None None []) (init_bot [] No_file))
       \<lparr>tg_id = 1, tg_username = None, tg_first_name = [79]\<rparr> [ascii ''5'', [104]]))) =
     [new_message [104] [50] True]"
proof -
  let ?b = "with_db (deactivate_user 5 \<circ> add_user 5 None None []) (init_bot [] No_file)"
  let ?e = "\<lparr>admin_user_id = 1, now = [50], deliver = (\<lambda>_ _. Sent)\<rparr>"
  let ?u = "\<lparr>tg_id = 1, tg_username = None, tg_first_name = [79]\<rparr>"
  have h1: "tg_id ?u = admin_user_id ?e" by simp
  have h2: "2 \<le> length [ascii ''5'', [104]]" by simp
  have h3: "py_int ([ascii ''5'', [104]] ! 0) = Some 5"
    using int_of_str_int [of 5] by (simp add: str_int_def str_nat.simps)
  have h4: "get_user 5 (db ?b) = Some ((new_user 5 None None [])\<lparr>is_active := False\<rparr>)"
    by (simp add: admin_eval)
  show ?thesis
    using reply_recorded_iff_delivered [OF h1 h2 h3 h4] h3 h4 by (simp add: new_user_def)
qed

text \<open>
  (C16) A reply to an id with no record is still sent, reported to the operator as
  sent, and recorded nowhere: the command has no unknown-target check, and
  \<open>add_message\<close> drops the message silently.  The design asks for an
  \<open>InvalidTarget\<close> error before any delivery.
\<close>

theorem reply_to_unknown_target_unrecorded:
  assumes "tg_id u = admin_user_id e" and "2 \<le> length args" and "py_int (args ! 0) = Some t"
    and "get_user t (db b) = None"
    and "deliver e t (Reply_from_team (py_join (ascii '' '') (drop 1 args))) = Sent"
  shows "reply_command e b u args =
           finish b [Send_message t (Reply_from_team (py_join (ascii '' '') (drop 1 args))) Sent,
                     Reply_text (Reply_sent t)]"
  using assms by (simp add: reply_command_parsed add_message_unknown_noop with_db_def)

theorem reply_to_unknown_target_unrecorded_witness:
  "get_user 9 (db (init_bot [] No_file)) = None \<and>
   reply_command \<lparr>admin_user_id = 1, now = [], deliver = (\<lambda>_ _. Sent)\<rparr> (init_bot [] No_file)
     \<lparr>tg_id = 1, tg_username = None, tg_first_name = [79]\<rparr> [ascii ''9'', [104]] =
   finish (init_bot [] No_file) [Send_message 9 (Reply_from_team [104]) Sent, Reply_text (Reply_sent 9)]"
proof -
  let ?e = "\<lparr>admin_user_id = 1, now = [], deliver = (\<lambda>_ _. Sent)\<rparr>"
  let ?u = "\<lparr>tg_id = 1, tg_username = None, tg_first_name = [79]\<rparr>"
  have h1: "tg_id ?u = admin_user_id ?e" by simp
  have h2: "2 \<le> length [ascii ''9'', [104]]" by simp
  have h3: "py_int ([ascii ''9'', [104]] ! 0) = Some 9"
    using int_of_str_int [of 9] by (simp add: str_int_def str_nat.simps)
  have h4: "get_user 9 (db (init_bot [] No_file)) = None" by (simp add: admin_eval)
  have h5: "deliver ?e 9 (Reply_from_team (py_join (ascii '' '') (drop 1 [ascii ''9'', [104]]))) = Sent"
    by simp
  show ?thesis
    using reply_to_unknown_target_unrecorded [OF h1 h2 h3 h4 h5] h4 by simp
qed

text \<open>
  (C24) \<open>/block <id>\<close> for an id with no record changes nothing (no record, no file
  write) and still tells the operator that the user has been blocked; the design
  asks for a \<open>NotFound\<close> answer.
\<close>

theorem block_unknown_reports_blocked:
  "tg_id u = admin_user_id e \<Longrightarrow> py_int a = Some t \<Longrightarrow> get_user t (db b) = None \<Longrightarrow>
   block_command e b u [a] = finish b [Reply_text (User_blocked t)]"
  by (simp add: block_command_def deactivate_user_def registered_iff with_db_def)

theorem block_unknown_reports_blocked_witness:
  "py_int (ascii ''9'') = Some 9 \<and> get_user 9 (db (init_bot [] No_file)) = None \<and>
   block_command \<lparr>admin_user_id = 1, now = [], deliver = (\<lambda>_ _. Sent)\<rparr> (init_bot [] No_file)
     \<lparr>tg_id = 1, tg_username = None, tg_first_name = [79]\<rparr> [ascii ''9''] =
   finish (init_bot [] No_file) [Reply_text (User_blocked 9)]"
proof -
  have h2: "py_int (ascii ''9'') = Some 9"
    using int_of_str_int [of 9] by (simp add: str_int_def str_nat.simps)
  have h3: "get_user 9 (db (init_bot [] No_file)) = None" by (simp add: admin_eval)
  have h1: "tg_id \<lparr>tg_id = 1, tg_username = None, tg_first_name = [79]\<rparr> =
      admin_user_id \<lparr>admin_user_id = 1, now = [], deliver = (\<lambda>_ _. Sent)\<rparr>" by simp
  show ?thesis using block_unknown_reports_blocked [OF h1 h2 h3] h2 h3 by simp
qed

text \<open>
  (C20) \<open>/users\<close> from the operator with at least one active user answers with
  pieces of text, none empty and none longer than 4096 code points, that
  concatenate to the whole listing: nothing is lost or repeated by the split.
\<close>

theorem users_listing_split_lossless:
  assumes "tg_id u = admin_user_id e" and "get_all_users (db b) \<noteq> []"
  shows "\<exists>cs. users_command e b u = finish b (map (\<lambda>c. Reply_text (Users_text c)) cs) \<and>
              concat cs = users_listing (get_all_users (db b)) \<and>
              (\<forall>c \<in> set cs. c \<noteq> [] \<and> length c \<le> 4096)"
proof (intro exI conjI)
  let ?cs = "chunks 4096 (users_listing (get_all_users (db b)))"
  show "users_command e b u = finish b (map (\<lambda>c. Reply_text (Users_text c)) ?cs)"
    by (rule users_command_chunks [OF assms])
  show "concat ?cs = users_listing (get_all_users (db b))"
    by (simp add: concat_chunks)
  show "\<forall>c \<in> set ?cs. c \<noteq> [] \<and> length c \<le> 4096"
    using chunks_bounded by blast
qed

theorem users_listing_split_lossless_witness:
  "get_all_users (db (with_db (add_user 5 None None []) (init_bot [] No_file))) \<noteq> [] \<and>
   (\<exists>cs. users_command \<lparr>admin_user_id = 1, now = [], deliver = (\<lambda>_ _. Sent)\<rparr>
          (with_db (add_user 5 None None []) (init_bot [] No_file))
          \<lparr>tg_id = 1, tg_username = None, tg_first_name = [79]\<rparr> =
        finish (with_db (add_user 5 None None []) (init_bot [] No_file)) (map (\<lambda>c. Reply_text (Users_text c)) cs) \<and>
        concat cs = users_listing [new_user 5 None None []])"
proof -
  let ?b = "with_db (add_user 5 None None []) (init_bot [] No_file)"
  have h: "get_all_users (db ?b) = [new_user 5 None None []]" by (simp add: admin_eval)
  have h1: "tg_id \<lparr>tg_id = 1, tg_username = None, tg_first_name = [79]\<rparr> =
      admin_user_id \<lparr>admin_user_id = 1, now = [], deliver = (\<lambda>_ _. Sent)\<rparr>" by simp
  have h2: "get_all_users (db ?b) \<noteq> []" by (simp add: admin_eval)
  show ?thesis using users_listing_split_lossless [OF h1 h2] h by auto
qed

text \<open>
  (C21) Statistics: \<open>/stats\<close> from the operator reports the number of active
  users, the number of messages in their timelines (inactive users' messages not
  counted), and their mean printed with one decimal: the float division and the
  \<open>:.1f\<close> rounding put the printed value within \<open>1/20\<close> of the exact mean, up
  to the double's relative error \<open>2^-53\<close> (or \<open>2^-1075\<close> absolute, when the mean is
  subnormal); with no active user the mean is printed as \<open>0.0\<close> (the mean
  \<open>0 / 0\<close> is \<open>0\<close> in HOL).  Below \<open>2^1023\<close> messages no \<open>OverflowError\<close> is raised.
\<close>

theorem stats_report:
  assumes "tg_id u = admin_user_id e" and "total_messages (get_all_users (db b)) < 2 ^ 1023"
  shows "\<exists>n. stats_command e b u =
           finish b [Reply_text (Statistics (length (get_all_users (db b))) (total_messages (get_all_users (db b)))
                                  (str_int (n div 10) @ [46] @ str_int (n mod 10)))] \<and> 0 \<le> n \<and>
         \<bar>real_of_int n / 10 - real (total_messages (get_all_users (db b))) / real (length (get_all_users (db b)))\<bar>
           \<le> 1 / 20 + max (real (total_messages (get_all_users (db b))) / real (length (get_all_users (db b))) / 2 ^ 53)
                           (2 powr - 1075)"
proof -
  let ?us = "get_all_users (db b)"
  from average_text_bound [OF assms(2), of "length ?us"] obtain n where
    a: "average_text (total_messages ?us) (length ?us) = Inr (str_int (n div 10) @ [46] @ str_int (n mod 10))"
    and n: "0 \<le> n"
      "\<bar>real_of_int n / 10 - real (total_messages ?us) / real (length ?us)\<bar>
         \<le> 1 / 20 + max (real (total_messages ?us) / real (length ?us) / 2 ^ 53) (2 powr - 1075)"
    by blast
  show ?thesis
    using assms(1) a n by (intro exI [of _ n]) (simp add: stats_command_def Let_def)
qed

theorem stats_report_witness:
  "stats_command \<lparr>admin_user_id = 1, now = [], deliver = (\<lambda>_ _. Sent)\<rparr>
     (with_db (add_message 3 [] False [] \<circ> add_user 3 None None [] \<circ> add_user 2 None None [] \<circ>
               add_user 1 None None []) (init_bot [] No_file))
     \<lparr>tg_id = 1, tg_username = None, tg_first_name = [79]\<rparr> =
   finish (with_db (add_message 3 [] False [] \<circ> add_user 3 None None [] \<circ> add_user 2 None None [] \<circ>
               add_user 1 None None []) (init_bot [] No_file))
     [Reply_text (Statistics 3 1 (ascii ''0.3''))] \<and>
   (\<exists>n. str_int (n div 10) @ [46] @ str_int (n mod 10) = ascii ''0.3'' \<and>
        \<bar>real_of_int n / 10 - 1 / 3\<bar> \<le> 1 / 20 + max (1 / 3 / 2 ^ 53) (2 powr - 1075))"
proof -
  let ?b = "with_db (add_message 3 [] False [] \<circ> add_user 3 None None [] \<circ> add_user 2 None None [] \<circ>
               add_user 1 None None []) (init_bot [] No_file)"
  let ?e = "\<lparr>admin_user_id = 1, now = [], deliver = (\<lambda>_ _. Sent)\<rparr>"
  let ?u = "\<lparr>tg_id = 1, tg_username = None, tg_first_name = [79]\<rparr>"
  have len: "length (get_all_users (db ?b)) = 3" and tot: "total_messages (get_all_users (db ?b)) = 1"
    by (simp_all add: admin_eval)
  have h1: "tg_id ?u = admin_user_id ?e" by simp
  have h2: "total_messages (get_all_users (db ?b)) < 2 ^ 1023" by (simp only: tot) simp
  from stats_report [OF h1 h2] obtain n where
    st: "stats_command ?e ?b ?u = finish ?b [Reply_text (Statistics 3 1 (str_int (n div 10) @ [46] @ str_int (n mod 10)))]"
    and n: "\<bar>real_of_int n / 10 - 1 / 3\<bar> \<le> 1 / 20 + max (1 / 3 / 2 ^ 53) (2 powr - 1075)"
    by (simp only: len tot) auto
  have c: "stats_command ?e ?b ?u = finish ?b [Reply_text (Statistics 3 1 (ascii ''0.3''))]"
    by code_simp
  with st have "str_int (n div 10) @ [46] @ str_int (n mod 10) = ascii ''0.3''"
    by (simp add: finish_def)
  with c n show ?thesis by blast
qed

text \<open>
  (C26) The listing prints a user registered without a Telegram username as
  \<open>@None\<close>: the key is always stored (with \<open>None\<close>), so the default of
  \<open>user.get('username', 'No username')\<close> never applies.
\<close>

theorem listing_shows_none_username:
  "username ud = None \<Longrightarrow> sublist (ascii '' Username: @None'') (user_block ud)"
proof -
  assume "username ud = None"
  then have "user_block ud =
      ([127380] @ ascii '' ID: '' @ str_int (user_id ud) @ [10] @
       [128100] @ ascii '' Name: '' @ py_str_opt (first_name ud) @ [10] @ [128221]) @
      ascii '' Username: @None'' @
      ([10] @ [128197] @ ascii '' Joined: '' @ take 10 (joined_date ud) @ [10] @
       [128172] @ ascii '' Messages: '' @ str_nat (length (messages ud)) @ [10] @
       replicate 30 9472 @ [10])"
    by (simp add: user_block_def del: ascii_Cons ascii_append)
       (simp only: ascii_append [symmetric] append.simps)
  then show ?thesis by (metis sublist_appendI)
qed

theorem listing_shows_none_username_witness:
  "username (new_user 5 None None []) = None \<and>
   sublist (ascii '' Username: @None'') (user_block (new_user 5 None None []))"
proof -
  have h: "username (new_user 5 None None []) = None" by (simp add: new_user_def)
  show ?thesis using h listing_shows_none_username [OF h] by simp
qed

text \<open>
  (C19) Reply-target selection round trip: for every active user, pressing the
  button the selection keyboard shows for it (\<open>callback_data = reply_<id>\<close>) sets
  the reply target to exactly that user's id and shows that user's names.
\<close>

theorem button_selects_listed_user:
  assumes "reg_inv (db b)" and "ud \<in> set (get_all_users (db b))"
  shows "button_callback e b (callback_data (user_button ud)) =
           finish (b\<lparr>admin_current_chat := Some (user_id ud)\<rparr>)
             [Answer_query, Edit_message (Replying_to (py_str_opt (first_name ud)) (py_str_opt (username ud)) (user_id ud))]"
  using get_user_listed [OF assms]
  by (simp add: user_button_def button_callback_reply del: ascii_Cons ascii_append)

theorem button_selects_listed_user_witness:
  "reg_inv (db (with_db (add_user 5 None (Some [65]) []) (init_bot [] No_file))) \<and>
   new_user 5 None (Some [65]) [] \<in> set (get_all_users (db (with_db (add_user 5 None (Some [65]) []) (init_bot [] No_file)))) \<and>
   admin_current_chat (post (button_callback \<lparr>admin_user_id = 1, now = [], deliver = (\<lambda>_ _. Sent)\<rparr>
      (with_db (add_user 5 None (Some [65]) []) (init_bot [] No_file))
      (callback_data (user_button (new_user 5 None (Some [65]) []))))) = Some 5"
proof -
  let ?b = "with_db (add_user 5 None (Some [65]) []) (init_bot [] No_file)"
  have h1: "reg_inv (db ?b)" by (simp add: admin_eval)
  have h2: "new_user 5 None (Some [65]) [] \<in> set (get_all_users (db ?b))" by (simp add: admin_eval)
  show ?thesis
    using button_selects_listed_user [OF h1 h2] h1 h2 by (simp add: new_user_def)
qed

end
