(* ===== verification/Broadcast.thy ===== *)
theory Broadcast
  imports Bot
begin

text \<open>
  The BroadcastDispatcher, \<open>broadcast_command\<close> of \<open>src/bot.py\<close>: the operator's
  \<open>/broadcast <words>\<close> sends one announcement to every active user in registry
  order, counting successes and failures; a failed send is caught, counted and the
  loop goes on.  The loop is the recursive function \<open>broadcast_loop\<close> over the list
  \<open>get_all_users()\<close> returned, with the two counters and the actions so far as
  accumulators.  The lemmas give the loop in closed form: one send per active user,
  in order, each independent of the others' results, the counters being the numbers
  of sends that succeeded and failed; nothing is written to any timeline.
\<close>

section \<open>The loop and the command\<close>

fun broadcast_loop ::
  "(int \<Rightarrow> notice \<Rightarrow> send_result) \<Rightarrow> notice \<Rightarrow> user_rec list \<Rightarrow> nat \<Rightarrow> nat \<Rightarrow> action list \<Rightarrow>
   nat \<times> nat \<times> action list" where
  "broadcast_loop dl n [] sc fc as = (sc, fc, as)"
| "broadcast_loop dl n (ud # us) sc fc as =
     (case dl (user_id ud) n of
        Sent \<Rightarrow> broadcast_loop dl n us (Suc sc) fc (as @ [Send_message (user_id ud) n Sent])
      | Send_failed err \<Rightarrow>
          broadcast_loop dl n us sc (Suc fc) (as @ [Send_message (user_id ud) n (Send_failed err)]))"

definition broadcast_command :: "env \<Rightarrow> bot \<Rightarrow> tg_user \<Rightarrow> pystr list \<Rightarrow> outcome" where
  "broadcast_command e b u args =
     (if tg_id u \<noteq> admin_user_id e then finish b []
      else if length args < 1 then finish b [Reply_text Usage_broadcast]
      else
        (let n = Announcement (py_join (ascii '' '') args);
             (sc, fc, sends) = broadcast_loop (deliver e) n (get_all_users (db b)) 0 0 []
         in finish b (sends @ [Reply_text (Broadcast_completed sc fc)])))"

section \<open>Closed form of the loop\<close>

definition attempts :: "(int \<Rightarrow> notice \<Rightarrow> send_result) \<Rightarrow> notice \<Rightarrow> user_rec list \<Rightarrow> action list" where
  "attempts dl n us = map (\<lambda>ud. Send_message (user_id ud) n (dl (user_id ud) n)) us"

definition delivered :: "(int \<Rightarrow> notice \<Rightarrow> send_result) \<Rightarrow> notice \<Rightarrow> user_rec list \<Rightarrow> nat" where
  "delivered dl n us = length (filter (\<lambda>ud. dl (user_id ud) n = Sent) us)"

definition failed :: "(int \<Rightarrow> notice \<Rightarrow> send_result) \<Rightarrow> notice \<Rightarrow> user_rec list \<Rightarrow> nat" where
  "failed dl n us = length (filter (\<lambda>ud. dl (user_id ud) n \<noteq> Sent) us)"

lemma broadcast_loop_closed:
  "broadcast_loop dl n us sc fc as =
     (sc + delivered dl n us, fc + failed dl n us, as @ attempts dl n us)"
proof (induction us arbitrary: sc fc as)
  case Nil
  then show ?case by (simp add: delivered_def failed_def attempts_def)
next
  case (Cons ud us)
  then show ?case
    by (cases "dl (user_id ud) n") (simp_all add: delivered_def failed_def attempts_def)
qed

lemma delivered_failed_total: "delivered dl n us + failed dl n us = length us"
  unfolding delivered_def failed_def by (rule sum_length_filter_compl)

lemma broadcast_command_closed:
  assumes "tg_id u = admin_user_id e" and "args \<noteq> []"
  shows "broadcast_command e b u args =
    (let n = Announcement (py_join (ascii '' '') args); us = get_all_users (db b) in
     finish b (attempts (deliver e) n us @
       [Reply_text (Broadcast_completed (delivered (deliver e) n us) (failed (deliver e) n us))]))"
  using assms by (simp add: broadcast_command_def broadcast_loop_closed Let_def)

section \<open>Properties of the broadcast\<close>

text \<open>
  (C7) Partial-failure isolation: \<open>/broadcast <words>\<close> from the operator attempts
  one send of the announcement to every active user, in registry order, each
  attempt made whatever the earlier ones returned; it reports as delivered the
  number of sends that succeeded and as failed the number that raised, which add up
  to the number of active users; and it changes no state (broadcasts are not
  written to any timeline).
\<close>

theorem broadcast_isolates_failures:
  assumes "tg_id u = admin_user_id e" and "args \<noteq> []"
  shows "post (broadcast_command e b u args) = b \<and>
    acts (broadcast_command e b u args) =
      map (\<lambda>ud. Send_message (user_id ud) (Announcement (py_join (ascii '' '') args))
                  (deliver e (user_id ud) (Announcement (py_join (ascii '' '') args))))
        (get_all_users (db b)) @
      [Reply_text (Broadcast_completed
         (length (filter (\<lambda>ud. deliver e (user_id ud) (Announcement (py_join (ascii '' '') args)) = Sent)
            (get_all_users (db b))))
         (length (filter (\<lambda>ud. deliver e (user_id ud) (Announcement (py_join (ascii '' '') args)) \<noteq> Sent)
            (get_all_users (db b)))))] \<and>
    delivered (deliver e) (Announcement (py_join (ascii '' '') args)) (get_all_users (db b)) +
    failed (deliver e) (Announcement (py_join (ascii '' '') args)) (get_all_users (db b)) =
      length (get_all_users (db b))"
  using assms delivered_failed_total
  by (simp add: broadcast_command_closed attempts_def delivered_def failed_def Let_def)

theorem broadcast_isolates_failures_witness:
  "acts (broadcast_command
      \<lparr>admin_user_id = 1, now = [], deliver = (\<lambda>c _. if c = 12 \<or> c = 14 then Send_failed [] else Sent)\<rparr>
      (with_db (add_user 15 None None [] \<circ> add_user 14 None None [] \<circ> add_user 13 None None [] \<circ>
                add_user 12 None None [] \<circ> add_user 11 None None []) (init_bot [] No_file))
      \<lparr>tg_id = 1, tg_username = None, tg_first_name = [79]\<rparr> [[104]]) =
   [Send_message 11 (Announcement [104]) Sent, Send_message 12 (Announcement [104]) (Send_failed []),
    Send_message 13 (Announcement [104]) Sent, Send_message 14 (Announcement [104]) (Send_failed []),
    Send_message 15 (Announcement [104]) Sent, Reply_text (Broadcast_completed 3 2)]"
proof -
  let ?e = "\<lparr>admin_user_id = 1, now = [], deliver = (\<lambda>c _. if c = 12 \<or> c = 14 then Send_failed [] else Sent)\<rparr>"
  let ?b = "with_db (add_user 15 None None [] \<circ> add_user 14 None None [] \<circ> add_user 13 None None [] \<circ>
                add_user 12 None None [] \<circ> add_user 11 None None []) (init_bot [] No_file)"
  let ?u = "\<lparr>tg_id = 1, tg_username = None, tg_first_name = [79]\<rparr>"
  have h1: "tg_id ?u = admin_user_id ?e" by simp
  have h2: "[[104]] \<noteq> []" by simp
  have us: "get_all_users (db ?b) =
      [new_user 11 None None [], new_user 12 None None [], new_user 13 None None [],
       new_user 14 None None [], new_user 15 None None []]"
    by (simp add: registry_eval init_bot_def with_db_def)
  show ?thesis
    using broadcast_isolates_failures [OF h1 h2, of ?b] us by (simp add: new_user_def)
qed

end
