(* ===== verification/Dispatch.thy ===== *)
theory Dispatch
  imports Client Admin Broadcast
begin

text \<open>
  The event loop of \<open>src/bot.py\<close>: \<open>main\<close> registers one \<open>CommandHandler\<close> per
  command, a \<open>CallbackQueryHandler\<close> and a \<open>MessageHandler\<close> for every message that
  is not a command; \<open>handle_message\<close> sends the operator's messages to
  \<open>handle_admin_message\<close> and everybody else's to \<open>handle_client_message\<close>.
  An update is a command (with its whitespace-separated arguments), a plain message
  or a button press; \<open>dispatch\<close> is the handler table.  The application processes
  updates one at a time (python-telegram-bot's default, \<open>concurrent_updates\<close> off),
  so a run of the bot is a sequence of whole handler executions: the step relation
  \<open>bot_step\<close> lets any update, clock value and transport behaviour happen next, and
  \<open>reachable\<close> collects the states of all runs from a fresh start on a file that
  this code wrote (or no file, or a corrupt one).

  Every handler changes the registry only through \<open>UserDatabase\<close>'s methods;
  \<open>db_effect\<close> is the closure of the registry under them, the interface on which
  the registry's invariant and growth lemmas are lifted to every handler.
\<close>

section \<open>Updates and the handler table\<close>

datatype update =
    Command tg_user pystr "pystr list"
  | Text_message tg_user tg_message
  | Callback_query tg_user pystr

definition handle_message :: "env \<Rightarrow> bot \<Rightarrow> tg_user \<Rightarrow> tg_message \<Rightarrow> outcome" where
  "handle_message e b u m =
     (if tg_id u = admin_user_id e then handle_admin_message e b m
      else handle_client_message e b u m)"

fun dispatch :: "env \<Rightarrow> bot \<Rightarrow> update \<Rightarrow> outcome" where
  "dispatch e b (Command u c args) =
     (if c = ascii ''start'' then start e b u
      else if c = ascii ''help'' then help_command e b u
      else if c = ascii ''users'' then users_command e b u
      else if c = ascii ''stats'' then stats_command e b u
      else if c = ascii ''reply'' then reply_command e b u args
      else if c = ascii ''broadcast'' then broadcast_command e b u args
      else if c = ascii ''block'' then block_command e b u args
      else if c = ascii ''unblock'' then unblock_command e b u args
      else finish b [])"
| "dispatch e b (Text_message u m) = handle_message e b u m"
| "dispatch e b (Callback_query u d) = button_callback e b d"

section \<open>Registry effects\<close>

text \<open>
  The state-changing registry call a handler makes: none, or one call of
  \<open>add_user\<close>, \<open>add_message\<close>, \<open>deactivate_user\<close> or \<open>activate_user\<close>.
  (\<open>handle_client_message\<close> calls \<open>add_user\<close> before \<open>add_message\<close>, but only for
  a user it has just found, where \<open>add_user\<close> changes nothing.)
\<close>

inductive db_op :: "udb \<Rightarrow> udb \<Rightarrow> bool" where
  same: "db_op s s"
| add_user: "db_op s (add_user uid un fn clk s)"
| add_message: "db_op s (add_message uid t a clk s)"
| deactivate: "db_op s (deactivate_user uid s)"
| activate: "db_op s (activate_user uid s)"

section \<open>The per-user state machine\<close>

text \<open>
  The design's per-user states: no record yet, active, blocked (deactivated).
  \<open>status_trans\<close> is the design's transition relation: first contact makes a user
  active, \<open>deactivate\<close> blocks, \<open>activate\<close> unblocks, and any state may stay.
\<close>

datatype user_status = Unregistered | Active | Blocked

definition status_of :: "udb \<Rightarrow> int \<Rightarrow> user_status" where
  "status_of s uid =
     (case get_user uid s of None \<Rightarrow> Unregistered | Some u \<Rightarrow> if is_active u then Active else Blocked)"

inductive status_trans :: "user_status \<Rightarrow> user_status \<Rightarrow> bool" where
  stay: "status_trans st st"
| register: "status_trans Unregistered Active"
| block: "status_trans Active Blocked"
| unblock: "status_trans Blocked Active"

section \<open>Runs\<close>

inductive bot_step :: "int \<Rightarrow> bot \<Rightarrow> bot \<Rightarrow> bool" for adm :: int where
  handle: "admin_user_id e = adm \<Longrightarrow> bot_step adm b (post (dispatch e b upd))"

inductive reachable :: "int \<Rightarrow> bot \<Rightarrow> bool" for adm :: int where
  init: "wf_users (users (load_data fs)) \<Longrightarrow> reachable adm (init_bot f fs)"
| step: "reachable adm b \<Longrightarrow> bot_step adm b b' \<Longrightarrow> reachable adm b'"

text \<open>Two outcomes that look the same to the users and the registry.\<close>

definition same_view :: "outcome \<Rightarrow> outcome \<Rightarrow> bool" where
  "same_view o1 o2 \<longleftrightarrow> acts o1 = acts o2 \<and> raised o1 = raised o2 \<and> db (post o1) = db (post o2)"

inductive_cases bot_stepE: "bot_step adm b b'"

section \<open>Lemmas: every handler makes at most one registry call\<close>

lemma db_op_reg_inv: "db_op s s' \<Longrightarrow> reg_inv s \<Longrightarrow> reg_inv s'"
  by (induction rule: db_op.induct) auto

lemma db_op_grows: "db_op s s' \<Longrightarrow> db_grows s s'"
  by (induction rule: db_op.induct) auto

lemma db_op_status: "db_op s s' \<Longrightarrow> status_trans (status_of s uid) (status_of s' uid)"
  by (induction rule: db_op.induct)
     (auto simp: status_of_def registry_simps new_user_def intro: status_trans.intros
       split: option.split)

lemma client_db_op: "db_op (db b) (db (post (handle_client_message e b u m)))"
proof (cases "get_user (tg_id u) (db b)")
  case None
  then show ?thesis by (simp add: handle_client_message_rejected db_op.intros)
next
  case (Some ud)
  then show ?thesis
    by (cases "is_active ud")
       (simp_all add: handle_client_message_rejected handle_client_message_active db_op.intros)
qed

lemma handlers_db_op:
  "db_op (db b) (db (post (start e b u)))"
  "db_op (db b) (db (post (help_command e b u)))"
  "db_op (db b) (db (post (users_command e b u)))"
  "db_op (db b) (db (post (stats_command e b u)))"
  "db_op (db b) (db (post (reply_command e b u args)))"
  "db_op (db b) (db (post (broadcast_command e b u args)))"
  "db_op (db b) (db (post (block_command e b u args)))"
  "db_op (db b) (db (post (unblock_command e b u args)))"
  "db_op (db b) (db (post (handle_admin_message e b m)))"
  "db_op (db b) (db (post (button_callback e b d)))"
  by (auto simp: start_def help_command_def users_command_def stats_command_def reply_command_def
      broadcast_command_def block_command_def unblock_command_def handle_admin_message_def
      button_callback_def Let_def
      intro: db_op.intros split: option.split send_result.split prod.split sum.split)

lemma dispatch_db_op: "db_op (db b) (db (post (dispatch e b upd)))"
  by (cases upd) (simp_all add: handlers_db_op client_db_op handle_message_def db_op.same)

lemma handlers_ignore_target:
  "same_view (start e (b\<lparr>admin_current_chat := c\<rparr>) u) (start e b u)"
  "same_view (help_command e (b\<lparr>admin_current_chat := c\<rparr>) u) (help_command e b u)"
  "same_view (users_command e (b\<lparr>admin_current_chat := c\<rparr>) u) (users_command e b u)"
  "same_view (stats_command e (b\<lparr>admin_current_chat := c\<rparr>) u) (stats_command e b u)"
  "same_view (reply_command e (b\<lparr>admin_current_chat := c\<rparr>) u args) (reply_command e b u args)"
  "same_view (broadcast_command e (b\<lparr>admin_current_chat := c\<rparr>) u args) (broadcast_command e b u args)"
  "same_view (block_command e (b\<lparr>admin_current_chat := c\<rparr>) u args) (block_command e b u args)"
  "same_view (unblock_command e (b\<lparr>admin_current_chat := c\<rparr>) u args) (unblock_command e b u args)"
  "same_view (handle_admin_message e (b\<lparr>admin_current_chat := c\<rparr>) m) (handle_admin_message e b m)"
  "same_view (handle_client_message e (b\<lparr>admin_current_chat := c\<rparr>) u m) (handle_client_message e b u m)"
  "same_view (button_callback e (b\<lparr>admin_current_chat := c\<rparr>) d) (button_callback e b d)"
  by (simp_all add: same_view_def start_def help_command_def users_command_def stats_command_def
      reply_command_def broadcast_command_def block_command_def unblock_command_def
      handle_admin_message_def handle_client_message_def button_callback_def Let_def with_db_def
      split: option.split send_result.split prod.split sum.split)

lemma dispatch_ignores_target:
  "same_view (dispatch e (b\<lparr>admin_current_chat := c\<rparr>) upd) (dispatch e b upd)"
proof -
  have "same_view (finish (b\<lparr>admin_current_chat := c\<rparr>) []) (finish b [])"
    by (simp add: same_view_def)
  then show ?thesis
    by (cases upd) (simp_all add: handlers_ignore_target handle_message_def)
qed

section \<open>Lemmas: runs\<close>

lemma bot_step_db_op: "bot_step adm b b' \<Longrightarrow> db_op (db b) (db b')"
  by (auto elim: bot_stepE intro: dispatch_db_op)

lemma reachable_reg_inv: "reachable adm b \<Longrightarrow> reg_inv (db b)"
proof (induction rule: reachable.induct)
  case (init fs f)
  then show ?case by (simp add: init_bot_def reg_inv_init)
next
  case (step b b')
  then show ?case by (blast dest: bot_step_db_op db_op_reg_inv)
qed

lemma steps_grow: "(bot_step adm)\<^sup>*\<^sup>* b b' \<Longrightarrow> db_grows (db b) (db b')"
proof (induction rule: rtranclp_induct)
  case base
  then show ?case by (rule db_grows_refl)
next
  case (step b1 b2)
  then show ?case by (blast dest: bot_step_db_op db_op_grows intro: db_grows_trans)
qed

end
