(* ===== verification/Json.thy ===== *)
theory Json
  imports PyStr
begin

text \<open>
  The \<open>json\<close> module as \<open>src/database.py\<close> uses it: \<open>json.dump(self.data, f,
  ensure_ascii=False, indent=2)\<close> in \<open>_save_data\<close> and \<open>json.load(f)\<close> in
  \<open>_load_data\<close>.  A JSON value is the Python object it denotes (\<open>dict\<close> as an
  insertion-ordered association list, \<open>list\<close>, \<open>str\<close>, \<open>int\<close>, \<open>bool\<close>,
  \<open>None\<close>; a \<open>float\<close> is kept as its literal).  The encoder is the pure-Python
  \<open>_make_iterencode\<close> that \<open>json.dumps\<close> uses when an indent is given; the
  decoder is the C scanner (\<open>scan_once\<close>, \<open>_parse_object\<close>, \<open>_parse_array\<close>,
  \<open>scanstring\<close>, \<open>_match_number\<close>) with \<open>strict=True\<close>, every
  \<open>JSONDecodeError\<close> being \<^const>\<open>None\<close>.  Its recursion is bounded by fuel; the
  fuel \<open>json_loads\<close> gives is twice the length of the text, and every call consumes
  a character before the next but one.
\<close>

datatype json =
    JNull
  | JBool bool
  | JInt int
  | JFloat pystr
  | JStr pystr
  | JArr "json list"
  | JObj "(pystr \<times> json) list"

section \<open>Encoder\<close>

definition hex_digit :: "nat \<Rightarrow> nat" where
  "hex_digit d = (if d < 10 then 48 + d else 87 + d)"

text \<open>
  \<open>encode_basestring\<close>: \<open>"\<close> and backslash are escaped, the control characters
  below U+0020 become \<open>\b \f \n \r \t\<close> or \<open>\u00xx\<close> (lower-case hex); everything
  else, non-ASCII included, is written as it is.
\<close>

definition json_esc :: "nat \<Rightarrow> pystr" where
  "json_esc c =
     (if c = 34 then [92, 34] else if c = 92 then [92, 92]
      else if c = 8 then [92, 98] else if c = 12 then [92, 102]
      else if c = 10 then [92, 110] else if c = 13 then [92, 114] else if c = 9 then [92, 116]
      else if c < 32 then [92, 117, 48, 48, hex_digit (c div 16), hex_digit (c mod 16)]
      else [c])"

definition enc_str :: "pystr \<Rightarrow> pystr" where
  "enc_str s = 34 # concat (map json_esc s) @ [34]"

text \<open>\<open>'\n' + ' ' * (2 * level)\<close>.\<close>

definition nl :: "nat \<Rightarrow> pystr" where
  "nl m = 10 # replicate (2 * m) 32"

text \<open>
  \<open>_iterencode\<close> at nesting level \<open>l\<close>: an empty container is \<open>[]\<close> or \<open>{}\<close>;
  otherwise every item starts on a new line indented one level deeper, items are
  separated by \<open>,\<close>, keys from values by \<open>": "\<close>, and the closing bracket is on a
  new line at level \<open>l\<close>.
\<close>

fun json_enc :: "nat \<Rightarrow> json \<Rightarrow> pystr"
  and enc_members :: "nat \<Rightarrow> (pystr \<times> json) list \<Rightarrow> pystr"
  and enc_elems :: "nat \<Rightarrow> json list \<Rightarrow> pystr" where
  "json_enc l JNull = ascii ''null''"
| "json_enc l (JBool b) = (if b then ascii ''true'' else ascii ''false'')"
| "json_enc l (JInt i) = str_int i"
| "json_enc l (JFloat t) = t"
| "json_enc l (JStr s) = enc_str s"
| "json_enc l (JArr vs) = (if vs = [] then ascii ''[]'' else 91 # enc_elems (Suc l) vs @ nl l @ [93])"
| "json_enc l (JObj kvs) = (if kvs = [] then ascii ''{}'' else 123 # enc_members (Suc l) kvs @ nl l @ [125])"
| "enc_members m [] = []"
| "enc_members m (kv # kvs) =
     nl m @ enc_str (fst kv) @ ascii '': '' @ json_enc m (snd kv) @
     (if kvs = [] then [] else 44 # enc_members m kvs)"
| "enc_elems m [] = []"
| "enc_elems m (v # vs) = nl m @ json_enc m v @ (if vs = [] then [] else 44 # enc_elems m vs)"

text \<open>\<open>json.dumps(v, ensure_ascii=False, indent=2)\<close>.\<close>

definition json_dumps :: "json \<Rightarrow> pystr" where
  "json_dumps v = json_enc 0 v"

section \<open>Decoder\<close>

definition is_ws :: "nat \<Rightarrow> bool" where
  "is_ws c \<longleftrightarrow> c = 32 \<or> c = 9 \<or> c = 10 \<or> c = 13"

definition skip_ws :: "pystr \<Rightarrow> pystr" where
  "skip_ws s = dropWhile is_ws s"

definition hex_val :: "nat \<Rightarrow> nat option" where
  "hex_val c =
     (if 48 \<le> c \<and> c \<le> 57 then Some (c - 48)
      else if 97 \<le> c \<and> c \<le> 102 then Some (c - 87)
      else if 65 \<le> c \<and> c \<le> 70 then Some (c - 55) else None)"

text \<open>Four hex digits of a \<open>\uXXXX\<close> escape, either case.\<close>

definition hex4 :: "pystr \<Rightarrow> (nat \<times> pystr) option" where
  "hex4 s =
     (if length s < 4 then None
      else (case (hex_val (s ! 0), hex_val (s ! 1), hex_val (s ! 2), hex_val (s ! 3)) of
              (Some a, Some b, Some c, Some d) \<Rightarrow> Some (((a * 16 + b) * 16 + c) * 16 + d, drop 4 s)
            | _ \<Rightarrow> None))"

definition unescape :: "nat \<Rightarrow> nat option" where
  "unescape e =
     (if e = 34 then Some 34 else if e = 92 then Some 92 else if e = 47 then Some 47
      else if e = 98 then Some 8 else if e = 102 then Some 12 else if e = 110 then Some 10
      else if e = 114 then Some 13 else if e = 116 then Some 9 else None)"

text \<open>
  \<open>scanstring\<close> after the opening quote, accumulating the characters read: it
  stops at the closing quote; a raw control character, an unknown escape, a bad
  \<open>\uXXXX\<close> or the end of the text is an error.  A high surrogate escape followed by
  a low surrogate escape is joined into one code point.
\<close>

function scan_str :: "pystr \<Rightarrow> pystr \<Rightarrow> (pystr \<times> pystr) option" where
  "scan_str acc [] = None"
| "scan_str acc (c # r) =
     (if c = 34 then Some (acc, r)
      else if c = 92 then
        (case r of
           [] \<Rightarrow> None
         | e # r1 \<Rightarrow>
             if e = 117 then
               (case hex4 r1 of
                  None \<Rightarrow> None
                | Some (u, r2) \<Rightarrow>
                    if 55296 \<le> u \<and> u \<le> 56319 \<and> take 2 r2 = [92, 117] then
                      (case hex4 (drop 2 r2) of
                         None \<Rightarrow> None
                       | Some (u2, r3) \<Rightarrow>
                           if 56320 \<le> u2 \<and> u2 \<le> 57343
                           then scan_str (acc @ [65536 + (u - 55296) * 1024 + (u2 - 56320)]) r3
                           else scan_str (acc @ [u]) r2)
                    else scan_str (acc @ [u]) r2)
             else (case unescape e of None \<Rightarrow> None | Some x \<Rightarrow> scan_str (acc @ [x]) r1))
      else if c < 32 then None
      else scan_str (acc @ [c]) r)"
  by pat_completeness auto
termination
  by (relation "measure (\<lambda>(acc, s). length s)") (auto simp: hex4_def split: if_splits option.splits)

text \<open>
  \<open>_match_number\<close>: \<open>-?(0|[1-9][0-9]*)(\.[0-9]+)?([eE][-+]?[0-9]+)?\<close>, longest
  match; an integer literal gives an \<open>int\<close>, one with a fraction or an exponent a
  \<open>float\<close>.
\<close>

definition match_frac :: "pystr \<Rightarrow> pystr \<times> pystr" where
  "match_frac r =
     (if 2 \<le> length r \<and> r ! 0 = 46 \<and> is_digit_cp (r ! 1)
      then (46 # takeWhile is_digit_cp (tl r), dropWhile is_digit_cp (tl r)) else ([], r))"

definition match_exp :: "pystr \<Rightarrow> pystr \<times> pystr" where
  "match_exp r =
     (if r \<noteq> [] \<and> (hd r = 101 \<or> hd r = 69) then
        (let r2 = tl r;
             (sg, r3) = (if r2 \<noteq> [] \<and> (hd r2 = 43 \<or> hd r2 = 45) then ([hd r2], tl r2) else ([], r2));
             ds = takeWhile is_digit_cp r3
         in if ds \<noteq> [] then (hd r # sg @ ds, dropWhile is_digit_cp r3) else ([], r))
      else ([], r))"

definition number_tail :: "pystr \<Rightarrow> pystr \<Rightarrow> pystr \<Rightarrow> (json \<times> pystr) option" where
  "number_tail sg ip r =
     (let (fr, r1) = match_frac r; (ex, r2) = match_exp r1 in
      if fr = [] \<and> ex = [] then Some (JInt ((if sg = [] then 1 else -1) * int (digits_val ip)), r2)
      else Some (JFloat (sg @ ip @ fr @ ex), r2))"

definition match_number :: "pystr \<Rightarrow> (json \<times> pystr) option" where
  "match_number s =
     (let (sg, r0) = (if s \<noteq> [] \<and> hd s = 45 then ([45], tl s) else ([], s)) in
      case r0 of
        [] \<Rightarrow> None
      | c # r1 \<Rightarrow>
          if c = 48 then number_tail sg [48] r1
          else if 49 \<le> c \<and> c \<le> 57 then
            number_tail sg (c # takeWhile is_digit_cp r1) (dropWhile is_digit_cp r1)
          else None)"

text \<open>A Python \<open>dict\<close> built from key-value pairs in order: a repeated key keeps its first position and its last value.\<close>

definition py_dict :: "('k \<times> 'v) list \<Rightarrow> ('k \<times> 'v) list" where
  "py_dict kvs = foldl (\<lambda>d kv. AList.update (fst kv) (snd kv) d) [] kvs"

text \<open>
  \<open>scan_once\<close>, \<open>_parse_object\<close> (entered after the opening brace and the
  whitespace after it, at a key) and \<open>_parse_array\<close> (entered at an element), with
  fuel \<open>n\<close>.
\<close>

fun parse_value :: "nat \<Rightarrow> pystr \<Rightarrow> (json \<times> pystr) option"
  and parse_object :: "nat \<Rightarrow> (pystr \<times> json) list \<Rightarrow> pystr \<Rightarrow> (json \<times> pystr) option"
  and parse_array :: "nat \<Rightarrow> json list \<Rightarrow> pystr \<Rightarrow> (json \<times> pystr) option" where
  "parse_value 0 s = None"
| "parse_value (Suc n) [] = None"
| "parse_value (Suc n) (c # r) =
     (if c = 34 then map_option (\<lambda>(t, r1). (JStr t, r1)) (scan_str [] r)
      else if c = 123 then
        (let r1 = skip_ws r in
         if r1 \<noteq> [] \<and> hd r1 = 125 then Some (JObj [], tl r1) else parse_object n [] r1)
      else if c = 91 then
        (let r1 = skip_ws r in
         if r1 \<noteq> [] \<and> hd r1 = 93 then Some (JArr [], tl r1) else parse_array n [] r1)
      else if take 4 (c # r) = ascii ''null'' then Some (JNull, drop 3 r)
      else if take 4 (c # r) = ascii ''true'' then Some (JBool True, drop 3 r)
      else if take 5 (c # r) = ascii ''false'' then Some (JBool False, drop 4 r)
      else if take 3 (c # r) = ascii ''NaN'' then Some (JFloat (ascii ''NaN''), drop 2 r)
      else if take 8 (c # r) = ascii ''Infinity'' then Some (JFloat (ascii ''Infinity''), drop 7 r)
      else if take 9 (c # r) = ascii ''-Infinity'' then Some (JFloat (ascii ''-Infinity''), drop 8 r)
      else match_number (c # r))"
| "parse_object 0 acc s = None"
| "parse_object (Suc n) acc [] = None"
| "parse_object (Suc n) acc (c # r) =
     (if c \<noteq> 34 then None
      else
        (case scan_str [] r of
           None \<Rightarrow> None
         | Some (k, r1) \<Rightarrow>
             (let r2 = skip_ws r1 in
              if r2 = [] \<or> hd r2 \<noteq> 58 then None
              else
                (case parse_value n (skip_ws (tl r2)) of
                   None \<Rightarrow> None
                 | Some (v, r3) \<Rightarrow>
                     (let r4 = skip_ws r3 in
                      if r4 \<noteq> [] \<and> hd r4 = 125 then Some (JObj (py_dict (acc @ [(k, v)])), tl r4)
                      else if r4 \<noteq> [] \<and> hd r4 = 44 then parse_object n (acc @ [(k, v)]) (skip_ws (tl r4))
                      else None)))))"
| "parse_array 0 acc s = None"
| "parse_array (Suc n) acc s =
     (case parse_value n s of
        None \<Rightarrow> None
      | Some (v, r1) \<Rightarrow>
          (let r2 = skip_ws r1 in
           if r2 \<noteq> [] \<and> hd r2 = 93 then Some (JArr (acc @ [v]), tl r2)
           else if r2 \<noteq> [] \<and> hd r2 = 44 then parse_array n (acc @ [v]) (skip_ws (tl r2))
           else None))"

text \<open>
  \<open>json.loads(s)\<close>: a leading byte-order mark is an error; otherwise one value
  between optional whitespace, and nothing after it.
\<close>

definition json_loads :: "pystr \<Rightarrow> json option" where
  "json_loads s =
     (if s \<noteq> [] \<and> hd s = 65279 then None
      else (case parse_value (Suc (2 * length s)) (skip_ws s) of
              None \<Rightarrow> None
            | Some (v, r) \<Rightarrow> if skip_ws r = [] then Some v else None))"


section \<open>Well-formed documents and fuel\<close>

text \<open>
  The values \<open>json.dump\<close> writes and \<open>json.load\<close> gives back unchanged: no float
  (the registry holds none) and no repeated key in an object.
\<close>

fun wf_json :: "json \<Rightarrow> bool" where
  "wf_json (JFloat t) = False"
| "wf_json (JArr vs) = (\<forall>v \<in> set vs. wf_json v)"
| "wf_json (JObj kvs) = (distinct (map fst kvs) \<and> (\<forall>kv \<in> set kvs. wf_json (snd kv)))"
| "wf_json _ = True"

text \<open>The fuel the decoder needs for a value: one per nesting level and per item.\<close>

fun need :: "json \<Rightarrow> nat"
  and need_members :: "(pystr \<times> json) list \<Rightarrow> nat"
  and need_elems :: "json list \<Rightarrow> nat" where
  "need (JArr vs) = Suc (need_elems vs)"
| "need (JObj kvs) = Suc (need_members kvs)"
| "need _ = 1"
| "need_members [] = 0"
| "need_members (kv # kvs) = Suc (max (need (snd kv)) (need_members kvs))"
| "need_elems [] = 0"
| "need_elems (v # vs) = Suc (max (need v) (need_elems vs))"

text \<open>What may follow a value in the encoder's output.\<close>

definition stop :: "pystr \<Rightarrow> bool" where
  "stop r \<longleftrightarrow> r = [] \<or> hd r \<in> {9, 10, 13, 32, 44, 93, 125}"

text \<open>The round-trip property of a value, as an induction hypothesis.\<close>

definition parses :: "json \<Rightarrow> bool" where
  "parses v \<longleftrightarrow> (\<forall>l n r. need v \<le> n \<longrightarrow> stop r \<longrightarrow> parse_value n (json_enc l v @ r) = Some (v, r))"

section \<open>Lemmas: whitespace and strings\<close>

lemma dropWhile_replicate: "P x \<Longrightarrow> dropWhile P (replicate n x @ r) = dropWhile P r"
  by (induction n) simp_all

lemma skip_ws_simps [simp]:
  "skip_ws [] = []"
  "skip_ws (nl m @ r) = skip_ws r"
  "\<not> is_ws c \<Longrightarrow> skip_ws (c # r) = c # r"
  "skip_ws (32 # r) = skip_ws r"
  by (simp_all add: skip_ws_def nl_def is_ws_def dropWhile_replicate)

lemma skip_ws_take_nl: "skip_ws (take q (nl m)) = []"
  by (simp add: skip_ws_def nl_def is_ws_def take_Cons' take_replicate)

lemma hex_val_digit: "d < 16 \<Longrightarrow> hex_val (hex_digit d) = Some d"
  by (simp add: hex_val_def hex_digit_def)

lemma scan_str_esc:
  "scan_str acc (json_esc c @ r) = scan_str (acc @ [c]) r"
proof -
  have "c < 32 \<Longrightarrow> hex4 ([48, 48, hex_digit (c div 16), hex_digit (c mod 16)] @ r) = Some (c, r)"
  proof -
    assume "c < 32"
    then have "c div 16 < 16" by simp
    moreover have "hex_val 48 = Some 0" by (simp add: hex_val_def)
    ultimately show ?thesis by (simp add: hex4_def hex_val_digit)
  qed
  then show ?thesis
    by (auto simp: json_esc_def unescape_def)
qed

lemma scan_str_escaped:
  "scan_str acc (concat (map json_esc s) @ 34 # r) = Some (acc @ s, r)"
  by (induction s arbitrary: acc) (simp_all add: scan_str_esc)

lemma scan_str_enc: "scan_str [] (tl (enc_str s) @ r) = Some (s, r)"
  by (simp add: enc_str_def scan_str_escaped)


section \<open>Lemmas: numbers\<close>

lemma str_nat_lead:
  "str_nat n = [48] \<and> n = 0 \<or> (\<exists>d ds. str_nat n = d # ds \<and> 49 \<le> d \<and> d \<le> 57 \<and> list_all is_digit_cp ds)"
proof (induction n rule: str_nat.induct)
  case (1 n)
  show ?case
  proof (cases "n < 10")
    case True
    then show ?thesis by (cases "n = 0") (simp_all add: str_nat.simps)
  next
    case False
    then have "str_nat n = str_nat (n div 10) @ [48 + n mod 10]" by (simp add: str_nat.simps)
    moreover from False have "n div 10 \<noteq> 0" by simp
    ultimately show ?thesis
      using 1 False str_nat_digits [of "n div 10"] by (auto simp: is_digit_cp_def)
  qed
qed

lemma stop_number:
  "stop r \<Longrightarrow> match_frac r = ([], r) \<and> match_exp r = ([], r) \<and>
     takeWhile is_digit_cp r = [] \<and> dropWhile is_digit_cp r = r"
  by (cases r) (auto simp: stop_def match_frac_def match_exp_def is_digit_cp_def)

lemma match_number_nat:
  assumes "stop r"
  shows "(case str_nat n @ r of
            [] \<Rightarrow> None
          | c # r1 \<Rightarrow>
              if c = 48 then number_tail sg [48] r1
              else if 49 \<le> c \<and> c \<le> 57 then
                number_tail sg (c # takeWhile is_digit_cp r1) (dropWhile is_digit_cp r1)
              else None) = Some (JInt ((if sg = [] then 1 else -1) * int n), r)"
  using str_nat_lead [of n]
proof
  assume h: "str_nat n = [48] \<and> n = 0"
  have "str_nat 0 = [48]" by (simp add: str_nat.simps)
  with assms h show ?thesis
    by (simp add: number_tail_def stop_number digits_val_def is_digit_cp_def)
next
  assume "\<exists>d ds. str_nat n = d # ds \<and> 49 \<le> d \<and> d \<le> 57 \<and> list_all is_digit_cp ds"
  then obtain d ds where n: "str_nat n = d # ds" and d: "49 \<le> d" "d \<le> 57"
    and ds: "list_all is_digit_cp ds" by blast
  have "takeWhile is_digit_cp (ds @ r) = ds" "dropWhile is_digit_cp (ds @ r) = r"
    using ds stop_number [OF assms] by (simp_all add: list_all_iff takeWhile_append2 dropWhile_append2)
  moreover have "digits_val (d # ds) = n" using digits_val_str_nat [of n] n by simp
  ultimately show ?thesis using assms n d by (simp add: number_tail_def stop_number)
qed

lemma match_number_str_int: "stop r \<Longrightarrow> match_number (str_int i @ r) = Some (JInt i, r)"
  using match_number_nat [of r "[]" "nat i"] match_number_nat [of r "[45]" "nat (- i)"]
  by (auto simp: match_number_def str_int_def str_nat_hd_not_sign)


lemma str_int_shape:
  "\<exists>c cs. str_int i = c # cs \<and> (c = 45 \<or> 48 \<le> c \<and> c \<le> 57) \<and>
     (c = 45 \<longrightarrow> cs \<noteq> [] \<and> 48 \<le> hd cs \<and> hd cs \<le> 57)"
  using str_nat_lead [of "nat i"] str_nat_lead [of "nat (- i)"]
  by (auto simp: str_int_def)

lemma parse_value_str_int: "parse_value (Suc n) (str_int i @ r) = match_number (str_int i @ r)"
proof -
  obtain c cs where e: "str_int i = c # cs" and c: "c = 45 \<or> 48 \<le> c \<and> c \<le> 57"
    and cs: "c = 45 \<longrightarrow> cs \<noteq> [] \<and> 48 \<le> hd cs \<and> hd cs \<le> 57"
    using str_int_shape by blast
  show ?thesis
  proof (cases "c = 45")
    case True
    with cs obtain d ds where "cs = d # ds" "48 \<le> d" "d \<le> 57" by (cases cs) auto
    with e True show ?thesis by simp
  next
    case False
    with c e show ?thesis by auto
  qed
qed

section \<open>Lemmas: the decoder inverts the encoder\<close>

lemma enc_str_Cons: "enc_str s = 34 # concat (map json_esc s) @ [34]"
  by (simp add: enc_str_def)

lemma json_enc_hd:
  "wf_json v \<Longrightarrow> \<exists>c cs. json_enc l v = c # cs \<and> \<not> is_ws c \<and> c \<noteq> 93 \<and> c \<noteq> 125 \<and> c < 128"
proof (cases v)
  case (JInt i)
  then show ?thesis using str_int_shape [of i] by (auto simp: is_ws_def)
qed (auto simp: is_ws_def enc_str_Cons)

lemma skip_ws_enc: "wf_json v \<Longrightarrow> skip_ws (json_enc l v @ r) = json_enc l v @ r"
  using json_enc_hd [of v l] by auto

lemma parse_members_enc:
  "\<forall>kv \<in> set kvs. wf_json (snd kv) \<and> parses (snd kv) \<Longrightarrow> kvs \<noteq> [] \<Longrightarrow> need_members kvs \<le> n \<Longrightarrow>
   parse_object n acc (skip_ws (enc_members m kvs @ nl l @ 125 # r)) = Some (JObj (py_dict (acc @ kvs)), r)"
proof (induction kvs arbitrary: acc n)
  case Nil
  then show ?case by simp
next
  case (Cons kv kvs)
  obtain n' where n: "n = Suc n'" using Cons.prems(3) by (cases n) auto
  let ?T = "(if kvs = [] then [] else 44 # enc_members m kvs) @ nl l @ 125 # r"
  have st: "stop ?T" by (simp add: stop_def nl_def)
  have v: "parse_value n' (json_enc m (snd kv) @ ?T) = Some (snd kv, ?T)"
    using Cons.prems(1,3) st n by (simp add: parses_def)
  have wv: "wf_json (snd kv)" using Cons.prems(1) by simp
  show ?case
  proof (cases "kvs = []")
    case True
    with v wv n show ?thesis
      by (simp add: enc_str_Cons scan_str_escaped skip_ws_enc is_ws_def)
  next
    case False
    have "parse_object n' (acc @ [kv]) (skip_ws (enc_members m kvs @ nl l @ 125 # r)) =
        Some (JObj (py_dict (acc @ [kv] @ kvs)), r)"
      using Cons.IH [of n' "acc @ [kv]"] Cons.prems False n by simp
    with False v wv n show ?thesis
      by (simp add: enc_str_Cons scan_str_escaped skip_ws_enc is_ws_def)
  qed
qed


lemma parse_elems_enc:
  "\<forall>v \<in> set vs. wf_json v \<and> parses v \<Longrightarrow> vs \<noteq> [] \<Longrightarrow> need_elems vs \<le> n \<Longrightarrow>
   parse_array n acc (skip_ws (enc_elems m vs @ nl l @ 93 # r)) = Some (JArr (acc @ vs), r)"
proof (induction vs arbitrary: acc n)
  case Nil
  then show ?case by simp
next
  case (Cons v vs)
  obtain n' where n: "n = Suc n'" using Cons.prems(3) by (cases n) auto
  let ?T = "(if vs = [] then [] else 44 # enc_elems m vs) @ nl l @ 93 # r"
  have st: "stop ?T" by (simp add: stop_def nl_def)
  have pv: "parse_value n' (json_enc m v @ ?T) = Some (v, ?T)"
    using Cons.prems(1,3) st n by (simp add: parses_def)
  have wv: "wf_json v" using Cons.prems(1) by simp
  show ?case
  proof (cases "vs = []")
    case True
    with pv wv n show ?thesis by (simp add: skip_ws_enc is_ws_def)
  next
    case False
    have "parse_array n' (acc @ [v]) (skip_ws (enc_elems m vs @ nl l @ 93 # r)) =
        Some (JArr (acc @ [v] @ vs), r)"
      using Cons.IH [of n' "acc @ [v]"] Cons.prems False n by simp
    with False pv wv n show ?thesis by (simp add: skip_ws_enc is_ws_def)
  qed
qed

lemma update_new: "k \<notin> set (map fst al) \<Longrightarrow> AList.update k v al = al @ [(k, v)]"
  by (induction al) auto

lemma py_dict_distinct: "distinct (map fst kvs) \<Longrightarrow> py_dict kvs = kvs"
proof -
  have "distinct (map fst (acc @ kvs)) \<Longrightarrow>
        foldl (\<lambda>d kv. AList.update (fst kv) (snd kv) d) acc kvs = acc @ kvs" for acc
    by (induction kvs arbitrary: acc) (auto simp: update_new)
  from this [of "[]"] show "distinct (map fst kvs) \<Longrightarrow> py_dict kvs = kvs"
    by (simp add: py_dict_def)
qed

lemma skip_ws_members:
  "kvs \<noteq> [] \<Longrightarrow> \<exists>t. skip_ws (enc_members m kvs @ r) = 34 # t"
  by (cases kvs) (auto simp: enc_str_Cons is_ws_def)

lemma skip_ws_elems:
  "\<forall>v \<in> set vs. wf_json v \<Longrightarrow> vs \<noteq> [] \<Longrightarrow> \<exists>c t. skip_ws (enc_elems m vs @ r) = c # t \<and> c \<noteq> 93"
  by (cases vs) (auto simp: skip_ws_enc dest!: json_enc_hd [of _ m] split: if_splits)

lemma parse_enc: "wf_json v \<Longrightarrow> parses v"
proof (induction v)
  case (JArr vs)
  show ?case unfolding parses_def
  proof (intro allI impI)
    fix l n r
    assume n: "need (JArr vs) \<le> n" and r: "stop r"
    obtain n' where n': "n = Suc n'" "need_elems vs \<le> n'" using n by (cases n) auto
    show "parse_value n (json_enc l (JArr vs) @ r) = Some (JArr vs, r)"
    proof (cases "vs = []")
      case True
      with n' show ?thesis by (simp add: is_ws_def)
    next
      case False
      have all: "\<forall>v \<in> set vs. wf_json v \<and> parses v" using JArr by simp
      with False obtain c t where "skip_ws (enc_elems (Suc l) vs @ nl l @ 93 # r) = c # t" "c \<noteq> 93"
        using skip_ws_elems [of vs "Suc l" "nl l @ 93 # r"] by auto
      with parse_elems_enc [OF all False n'(2), of "[]" "Suc l" l r] False n'(1) show ?thesis
        by (simp add: Let_def)
    qed
  qed
next
  case (JObj kvs)
  show ?case unfolding parses_def
  proof (intro allI impI)
    fix l n r
    assume n: "need (JObj kvs) \<le> n" and r: "stop r"
    obtain n' where n': "n = Suc n'" "need_members kvs \<le> n'" using n by (cases n) auto
    show "parse_value n (json_enc l (JObj kvs) @ r) = Some (JObj kvs, r)"
    proof (cases "kvs = []")
      case True
      with n' show ?thesis by (simp add: is_ws_def)
    next
      case False
      have all: "\<forall>kv \<in> set kvs. wf_json (snd kv) \<and> parses (snd kv)"
        using JObj by (auto simp: snds.simps)
      from False obtain t where "skip_ws (enc_members (Suc l) kvs @ nl l @ 125 # r) = 34 # t"
        using skip_ws_members by blast
      with parse_members_enc [OF all False n'(2), of "[]" "Suc l" l r] False n'(1) JObj.prems
      show ?thesis by (simp add: Let_def py_dict_distinct)
    qed
  qed
qed (auto simp: parses_def parse_value_str_int match_number_str_int enc_str_Cons
       scan_str_escaped dest!: Suc_le_D)



section \<open>Lemmas: fuel\<close>

lemma parse_Nil [simp]:
  "parse_value n [] = None" "parse_object n acc [] = None" "parse_array n acs [] = None"
proof -
  have v: "parse_value m [] = None" for m by (cases m) simp_all
  then show "parse_value n [] = None" .
  show "parse_object n acc [] = None" by (cases n) simp_all
  show "parse_array n acs [] = None" by (cases n) (simp_all add: v)
qed

lemma parse_mono:
  "(\<forall>m s x. n \<le> m \<longrightarrow> parse_value n s = Some x \<longrightarrow> parse_value m s = Some x) \<and>
   (\<forall>m acc s x. n \<le> m \<longrightarrow> parse_object n acc s = Some x \<longrightarrow> parse_object m acc s = Some x) \<and>
   (\<forall>m acs s x. n \<le> m \<longrightarrow> parse_array n acs s = Some x \<longrightarrow> parse_array m acs s = Some x)"
proof (induction n)
  case 0
  then show ?case by simp
next
  case (Suc n)
  have step:
    "(parse_value (Suc n) s = Some x \<longrightarrow> parse_value (Suc m) s = Some x) \<and>
     (parse_object (Suc n) acc s = Some x \<longrightarrow> parse_object (Suc m) acc s = Some x) \<and>
     (parse_array (Suc n) acs s = Some x \<longrightarrow> parse_array (Suc m) acs s = Some x)"
    if nm: "n \<le> m" for m s x acc acs
  proof -
    have V: "\<And>s. parse_value n s \<noteq> None \<Longrightarrow> parse_value m s = parse_value n s"
      and O: "\<And>acc s. parse_object n acc s \<noteq> None \<Longrightarrow> parse_object m acc s = parse_object n acc s"
      and A: "\<And>acs s. parse_array n acs s \<noteq> None \<Longrightarrow> parse_array m acs s = parse_array n acs s"
    proof -
      show "\<And>s. parse_value n s \<noteq> None \<Longrightarrow> parse_value m s = parse_value n s"
        using Suc.IH nm by (metis option.exhaust)
      show "\<And>acc s. parse_object n acc s \<noteq> None \<Longrightarrow> parse_object m acc s = parse_object n acc s"
        using Suc.IH nm by (metis option.exhaust)
      show "\<And>acs s. parse_array n acs s \<noteq> None \<Longrightarrow> parse_array m acs s = parse_array n acs s"
        using Suc.IH nm by (metis option.exhaust)
    qed
    have "parse_value (Suc n) s = Some x \<Longrightarrow> parse_value (Suc m) s = Some x"
      by (cases s) (auto simp: Let_def O A split: if_split_asm)
    moreover have "parse_object (Suc n) acc s = Some x \<Longrightarrow> parse_object (Suc m) acc s = Some x"
      by (cases s) (auto simp: Let_def V O split: if_split_asm option.split_asm prod.split_asm)
    moreover have "parse_array (Suc n) acs s = Some x \<Longrightarrow> parse_array (Suc m) acs s = Some x"
      by (auto simp: Let_def V A split: if_split_asm option.split_asm prod.split_asm)
    ultimately show ?thesis by blast
  qed
  show ?case
  proof (intro conjI allI impI)
    fix m s x acc acs
    assume "Suc n \<le> m"
    then obtain m' where m: "m = Suc m'" "n \<le> m'" by (cases m) auto
    show "parse_value (Suc n) s = Some x \<Longrightarrow> parse_value m s = Some x"
      and "parse_object (Suc n) acc s = Some x \<Longrightarrow> parse_object m acc s = Some x"
      and "parse_array (Suc n) acs s = Some x \<Longrightarrow> parse_array m acs s = Some x"
      using step [OF m(2)] m(1) by blast+
  qed
qed

lemma parse_value_mono: "parse_value n s = Some x \<Longrightarrow> n \<le> m \<Longrightarrow> parse_value m s = Some x"
  using parse_mono by blast


text \<open>With any fuel, a complete encoding is read back or the fuel runs out.\<close>

lemma parse_enc_any:
  assumes "wf_json v" and "stop r"
  shows "parse_value n (json_enc l v @ r) = None \<or> parse_value n (json_enc l v @ r) = Some (v, r)"
proof (cases "parse_value n (json_enc l v @ r)")
  case (Some x)
  have "parse_value (max n (need v)) (json_enc l v @ r) = Some x"
    using parse_value_mono [OF Some] by simp
  moreover have "parse_value (max n (need v)) (json_enc l v @ r) = Some (v, r)"
    using parse_enc [OF assms(1)] assms(2) by (simp add: parses_def)
  ultimately show ?thesis using Some by simp
qed simp

lemma need_le_length: "wf_json v \<Longrightarrow> need v \<le> length (json_enc l v)"
proof (induction v arbitrary: l)
  case (JArr vs)
  have "\<forall>v \<in> set vs. \<forall>l. need v \<le> length (json_enc l v)" using JArr by simp
  then have "need_elems vs \<le> length (enc_elems m vs)" for m
  proof (induction vs)
    case (Cons v vs)
    then have "need v \<le> length (json_enc m v)" "need_elems vs \<le> length (enc_elems m vs)" by simp_all
    then show ?case by (simp add: nl_def)
  qed simp
  from this [of "Suc l"] show ?case by simp
next
  case (JObj kvs)
  have "\<forall>kv \<in> set kvs. \<forall>l. need (snd kv) \<le> length (json_enc l (snd kv))"
    using JObj by (auto simp: snds.simps)
  then have "need_members kvs \<le> length (enc_members m kvs)" for m
  proof (induction kvs)
    case (Cons kv kvs)
    then have "need (snd kv) \<le> length (json_enc m (snd kv))"
      "need_members kvs \<le> length (enc_members m kvs)" by simp_all
    then show ?case by (simp add: nl_def)
  qed simp
  from this [of "Suc l"] show ?case by simp
qed (auto simp: str_int_def enc_str_def Suc_le_eq)

lemma json_loads_dumps: "wf_json v \<Longrightarrow> json_loads (json_dumps v) = Some v"
proof -
  assume wf: "wf_json v"
  obtain c cs where e: "json_enc 0 v = c # cs" and c: "c < 128"
    using json_enc_hd [OF wf] by blast
  have "need v \<le> Suc (2 * length (json_enc 0 v))" using need_le_length [OF wf, of 0] by simp
  then have p: "parse_value (Suc (2 * length (json_enc 0 v))) (json_enc 0 v @ []) = Some (v, [])"
    using parse_enc [OF wf] by (simp add: parses_def stop_def)
  have w: "skip_ws (json_enc 0 v @ []) = json_enc 0 v @ []" by (rule skip_ws_enc [OF wf])
  from p w e c show ?thesis by (simp add: json_loads_def json_dumps_def)
qed

end
