(* ===== verification/JsonCut.thy ===== *)
theory JsonCut
  imports Json
begin

text \<open>
  What \<open>json.load\<close> makes of a file that \<open>json.dump\<close> did not finish: every
  proper prefix of the text of a well-formed value either fails to parse or parses
  as a shorter value that consumes all of it (a truncated number), and a proper
  prefix of the text of an object never parses.  The registry's document is an
  object, so a file cut anywhere during \<open>_save_data\<close> is a \<open>JSONDecodeError\<close>.
\<close>

section \<open>Definitions\<close>

text \<open>A parse that either fails or consumes all of its input.\<close>

definition ends :: "(json \<times> pystr) option \<Rightarrow> bool" where
  "ends x \<longleftrightarrow> (case x of None \<Rightarrow> True | Some (v, r) \<Rightarrow> r = [])"

definition cut_ok :: "json \<Rightarrow> bool" where
  "cut_ok v \<longleftrightarrow> (\<forall>l k n. k \<le> length (json_enc l v) \<longrightarrow> ends (parse_value n (take k (json_enc l v))))"

section \<open>Lemmas: a truncated document does not parse\<close>

lemma json_esc_cut: "k < length (json_esc c) \<Longrightarrow> scan_str acc (take k (json_esc c)) = None"
proof -
  assume k: "k < length (json_esc c)"
  have "k < 6" using k by (simp add: json_esc_def split: if_splits)
  then have "k = 0 \<or> k = 1 \<or> k = 2 \<or> k = 3 \<or> k = 4 \<or> k = 5" by linarith
  with k show ?thesis
    by (auto simp: json_esc_def hex4_def split: if_splits)
qed

lemma scan_str_cut: "scan_str acc (take k (concat (map json_esc s))) = None"
proof (induction s arbitrary: acc k)
  case Nil
  then show ?case by simp
next
  case (Cons c s)
  show ?case
  proof (cases "k < length (json_esc c)")
    case True
    then show ?thesis by (simp add: json_esc_cut)
  next
    case False
    then have "take k (concat (map json_esc (c # s))) =
        json_esc c @ take (k - length (json_esc c)) (concat (map json_esc s))" by simp
    then show ?thesis by (simp add: scan_str_esc Cons.IH)
  qed
qed

lemma ends_None [simp]: "ends None" and ends_Some [simp]: "ends (Some (v, r)) = (r = [])"
  by (simp_all add: ends_def)


lemma object_key_cut:
  assumes "p \<le> length (concat (map json_esc k)) + 3"
  shows "parse_object n acc (34 # take p (concat (map json_esc k) @ 34 # 58 # 32 # Y)) = None"
proof (cases n)
  case (Suc n')
  show ?thesis
  proof (cases "p \<le> length (concat (map json_esc k))")
    case True
    then show ?thesis using Suc by (simp add: scan_str_cut)
  next
    case False
    with assms have "p - length (concat (map json_esc k)) \<in> {1, 2, 3}" by auto
    with Suc False show ?thesis by (auto simp: scan_str_escaped is_ws_def)
  qed
qed simp

lemma object_value_step:
  "parse_object (Suc n) acc (34 # concat (map json_esc k) @ 34 # 58 # 32 # Z) =
     (case parse_value n (skip_ws Z) of
        None \<Rightarrow> None
      | Some (v, r3) \<Rightarrow>
          (let r4 = skip_ws r3 in
           if r4 \<noteq> [] \<and> hd r4 = 125 then Some (JObj (py_dict (acc @ [(k, v)])), tl r4)
           else if r4 \<noteq> [] \<and> hd r4 = 44 then parse_object n (acc @ [(k, v)]) (skip_ws (tl r4))
           else None))"
  by (simp add: scan_str_escaped is_ws_def)

lemma skip_ws_take_enc: "wf_json v \<Longrightarrow> skip_ws (take i (json_enc l v @ r)) = take i (json_enc l v @ r)"
  using json_enc_hd [of v l] by (cases i) auto

lemma stop_take: "0 < t \<Longrightarrow> stop D \<Longrightarrow> D \<noteq> [] \<Longrightarrow> stop (take t D)"
  by (cases D) (auto simp: stop_def)


lemma take_append_long: "length xs \<le> p \<Longrightarrow> take p (xs @ ys) = xs @ take (p - length xs) ys"
  by simp

lemma members_cut:
  "\<forall>kv \<in> set kvs. wf_json (snd kv) \<and> cut_ok (snd kv) \<Longrightarrow> kvs \<noteq> [] \<Longrightarrow>
   q < length (enc_members m kvs @ nl l @ [125]) \<Longrightarrow>
   parse_object n acc (skip_ws (take q (enc_members m kvs @ nl l @ [125]))) = None"
proof (induction kvs arbitrary: acc n q)
  case Nil
  then show ?case by simp
next
  case (Cons kv kvs)
  let ?E = "concat (map json_esc (fst kv))" and ?V = "json_enc m (snd kv)"
  let ?D = "(if kvs = [] then [] else 44 # enc_members m kvs) @ nl l @ [125]"
  have W: "enc_members m (kv # kvs) @ nl l @ [125] = nl m @ 34 # ?E @ 34 # 58 # 32 # ?V @ ?D"
    by (simp add: enc_str_Cons)
  have wv: "wf_json (snd kv)" and cv: "cut_ok (snd kv)" using Cons.prems(1) by auto
  show ?case
  proof (cases "q \<le> length (nl m)")
    case True
    then show ?thesis by (simp add: W skip_ws_take_nl)
  next
    case False
    define p where "p = q - length (nl m) - 1"
    have sk: "skip_ws (take q (enc_members m (kv # kvs) @ nl l @ [125])) =
        34 # take p (?E @ 34 # 58 # 32 # ?V @ ?D)"
    proof -
      have "take q (nl m @ 34 # ?E @ 34 # 58 # 32 # ?V @ ?D) =
          nl m @ take (q - length (nl m)) (34 # ?E @ 34 # 58 # 32 # ?V @ ?D)"
        using False by (simp add: take_append)
      moreover have "take (q - length (nl m)) (34 # ?E @ 34 # 58 # 32 # ?V @ ?D) =
          34 # take p (?E @ 34 # 58 # 32 # ?V @ ?D)"
        using False by (simp add: p_def take_Cons')
      ultimately show ?thesis by (simp only: W skip_ws_simps(2)) (simp add: is_ws_def)
    qed
    have plen: "p < length ?E + 3 + length ?V + length ?D"
      using Cons.prems(3) False by (simp add: W p_def enc_str_Cons split: if_splits)
    show ?thesis
    proof (cases n)
      case 0
      then show ?thesis by simp
    next
      case (Suc n')
      show ?thesis
      proof (cases "p \<le> length ?E + 3")
        case True
        then show ?thesis by (simp only: sk object_key_cut)
      next
        case False
        define i where "i = p - length ?E - 3"
        have tp: "take p (?E @ 34 # 58 # 32 # ?V @ ?D) = ?E @ 34 # 58 # 32 # take i (?V @ ?D)"
          using take_append_long [of "?E @ [34, 58, 32]" p "?V @ ?D"] False
          by (simp add: i_def numeral_3_eq_3 del: take_append)
        have i: "0 < i" "i < length ?V + length ?D" using False plen by (simp_all add: i_def)
        have base: "parse_object n acc (skip_ws (take q (enc_members m (kv # kvs) @ nl l @ [125]))) =
            (case parse_value n' (skip_ws (take i (?V @ ?D))) of
               None \<Rightarrow> None
             | Some (v, r3) \<Rightarrow>
                 (let r4 = skip_ws r3 in
                  if r4 \<noteq> [] \<and> hd r4 = 125 then Some (JObj (py_dict (acc @ [(fst kv, v)])), tl r4)
                  else if r4 \<noteq> [] \<and> hd r4 = 44 then parse_object n' (acc @ [(fst kv, v)]) (skip_ws (tl r4))
                  else None))"
          by (simp only: sk tp Suc object_value_step)
        show ?thesis
        proof (cases "i \<le> length ?V")
          case True
          have "ends (parse_value n' (take i ?V))" using cv True by (simp add: cut_ok_def)
          moreover have "take i (?V @ ?D) = take i ?V" using True by simp
          ultimately show ?thesis using skip_ws_take_enc [OF wv, of i m "[]"]
            by (auto simp only: base ends_def split: option.split) (simp_all add: Let_def)
        next
          case False
          define t where "t = i - length ?V"
          have ti: "take i (?V @ ?D) = ?V @ take t ?D"
            using take_append_long [of ?V i ?D] False by (simp add: t_def del: take_append)
          have t: "0 < t" "t < length ?D" using False i by (simp_all add: t_def)
          have st: "stop (take t ?D)" using t by (intro stop_take) (auto simp: stop_def nl_def)
          have sv: "skip_ws (?V @ take t ?D) = ?V @ take t ?D" by (rule skip_ws_enc [OF wv])
          have pv: "parse_value n' (?V @ take t ?D) = None \<or>
              parse_value n' (?V @ take t ?D) = Some (snd kv, take t ?D)"
            by (rule parse_enc_any [OF wv st])
          show ?thesis
          proof (cases "kvs = []")
            case True
            then have "skip_ws (take t ?D) = []" using t
              by (simp add: skip_ws_take_nl)
            then show ?thesis using pv by (auto simp only: base ti sv) (simp_all add: Let_def del: take_append)
          next
            case False
            have tt: "take t ?D = 44 # take (t - 1) (enc_members m kvs @ nl l @ [125])"
              using False t by (simp add: take_Cons' del: take_append)
            have ih: "parse_object n' (acc @ [kv])
                (skip_ws (take (t - Suc 0) (enc_members m kvs @ nl l @ [125]))) = None"
            proof (rule Cons.IH)
              show "\<forall>kv \<in> set kvs. wf_json (snd kv) \<and> cut_ok (snd kv)" using Cons.prems(1) by simp
              show "kvs \<noteq> []" by (rule False)
              show "t - Suc 0 < length (enc_members m kvs @ nl l @ [125])" using t False by simp
            qed
            from pv show ?thesis
            proof
              assume "parse_value n' (?V @ take t ?D) = None"
              then show ?thesis by (simp only: base ti sv) simp
            next
              assume h: "parse_value n' (?V @ take t ?D) = Some (snd kv, take t ?D)"
              show ?thesis
                by (simp only: base ti sv h) (simp add: tt Let_def is_ws_def ih del: take_append)
            qed
          qed
        qed
      qed
    qed
  qed
qed


lemma elems_cut:
  "\<forall>v \<in> set vs. wf_json v \<and> cut_ok v \<Longrightarrow> vs \<noteq> [] \<Longrightarrow>
   q < length (enc_elems m vs @ nl l @ [93]) \<Longrightarrow>
   parse_array n acs (skip_ws (take q (enc_elems m vs @ nl l @ [93]))) = None"
proof (induction vs arbitrary: acs n q)
  case Nil
  then show ?case by simp
next
  case (Cons v vs)
  let ?V = "json_enc m v"
  let ?D = "(if vs = [] then [] else 44 # enc_elems m vs) @ nl l @ [93]"
  have W: "enc_elems m (v # vs) @ nl l @ [93] = nl m @ ?V @ ?D" by simp
  have wv: "wf_json v" and cv: "cut_ok v" using Cons.prems(1) by auto
  show ?case
  proof (cases "q \<le> length (nl m)")
    case True
    then have "take q (nl m @ ?V @ ?D) = take q (nl m)" by simp
    then show ?thesis by (simp only: W skip_ws_take_nl parse_Nil)
  next
    case False
    define i where "i = q - length (nl m)"
    have sk: "skip_ws (take q (enc_elems m (v # vs) @ nl l @ [93])) = take i (?V @ ?D)"
    proof -
      have "take q (nl m @ ?V @ ?D) = nl m @ take i (?V @ ?D)"
        using take_append_long [of "nl m" q "?V @ ?D"] False by (simp add: i_def del: take_append)
      then show ?thesis by (simp only: W skip_ws_simps(2) skip_ws_take_enc [OF wv])
    qed
    have i: "0 < i" "i < length ?V + length ?D" using False Cons.prems(3) by (simp_all add: i_def)
    show ?thesis
    proof (cases n)
      case 0
      then show ?thesis by simp
    next
      case (Suc n')
      have base: "parse_array n acs (skip_ws (take q (enc_elems m (v # vs) @ nl l @ [93]))) =
          (case parse_value n' (take i (?V @ ?D)) of
             None \<Rightarrow> None
           | Some (w, r1) \<Rightarrow>
               (let r2 = skip_ws r1 in
                if r2 \<noteq> [] \<and> hd r2 = 93 then Some (JArr (acs @ [w]), tl r2)
                else if r2 \<noteq> [] \<and> hd r2 = 44 then parse_array n' (acs @ [w]) (skip_ws (tl r2))
                else None))"
        by (simp only: sk Suc parse_array.simps(2))
      show ?thesis
      proof (cases "i \<le> length ?V")
        case True
        have "ends (parse_value n' (take i ?V))" using cv True by (simp add: cut_ok_def)
        moreover have "take i (?V @ ?D) = take i ?V" using True by simp
        ultimately show ?thesis
          by (auto simp only: base ends_def split: option.split) (simp_all add: Let_def)
      next
        case False
        define t where "t = i - length ?V"
        have ti: "take i (?V @ ?D) = ?V @ take t ?D"
          using take_append_long [of ?V i ?D] False by (simp add: t_def del: take_append)
        have t: "0 < t" "t < length ?D" using False i by (simp_all add: t_def)
        have st: "stop (take t ?D)" using t by (intro stop_take) (auto simp: stop_def nl_def)
        have pv: "parse_value n' (?V @ take t ?D) = None \<or>
            parse_value n' (?V @ take t ?D) = Some (v, take t ?D)"
          by (rule parse_enc_any [OF wv st])
        show ?thesis
        proof (cases "vs = []")
          case True
          then have "skip_ws (take t ?D) = []" using t by (simp add: skip_ws_take_nl)
          then show ?thesis using pv by (auto simp only: base ti) (simp_all add: Let_def del: take_append)
        next
          case False
          have tt: "take t ?D = 44 # take (t - 1) (enc_elems m vs @ nl l @ [93])"
            using False t by (simp add: take_Cons' del: take_append)
          have ih: "parse_array n' (acs @ [v])
              (skip_ws (take (t - Suc 0) (enc_elems m vs @ nl l @ [93]))) = None"
          proof (rule Cons.IH)
            show "\<forall>v \<in> set vs. wf_json v \<and> cut_ok v" using Cons.prems(1) by simp
            show "vs \<noteq> []" by (rule False)
            show "t - Suc 0 < length (enc_elems m vs @ nl l @ [93])" using t False by simp
          qed
          from pv show ?thesis
          proof
            assume "parse_value n' (?V @ take t ?D) = None"
            then show ?thesis by (simp only: base ti) simp
          next
            assume h: "parse_value n' (?V @ take t ?D) = Some (v, take t ?D)"
            show ?thesis
              by (simp only: base ti h) (simp add: tt Let_def is_ws_def ih del: take_append)
          qed
        qed
      qed
    qed
  qed
qed


lemma skip_take_members:
  "kvs \<noteq> [] \<Longrightarrow> skip_ws (take j (enc_members m kvs @ X)) = [] \<or>
     hd (skip_ws (take j (enc_members m kvs @ X))) = 34"
proof (cases kvs)
  case (Cons kv kvs')
  show ?thesis
  proof (cases "j \<le> length (nl m)")
    case True
    then show ?thesis using Cons by (simp add: skip_ws_take_nl)
  next
    case False
    then obtain j' where "j - length (nl m) = Suc j'" by (cases "j - length (nl m)") auto
    with False Cons show ?thesis by (simp add: enc_str_Cons is_ws_def)
  qed
qed simp

lemma skip_take_elems:
  assumes "\<forall>v \<in> set vs. wf_json v" and "vs \<noteq> []"
  shows "skip_ws (take j (enc_elems m vs @ X)) = [] \<or>
     hd (skip_ws (take j (enc_elems m vs @ X))) \<noteq> 93"
proof (cases vs)
  case (Cons v vs')
  then have wv: "wf_json v" using assms(1) by simp
  obtain c cs where e: "json_enc m v = c # cs" and c: "\<not> is_ws c" "c \<noteq> 93"
    using json_enc_hd [OF wv] by blast
  show ?thesis
  proof (cases "j \<le> length (nl m)")
    case True
    then show ?thesis using Cons by (simp add: skip_ws_take_nl)
  next
    case False
    then obtain j' where "j - length (nl m) = Suc j'" by (cases "j - length (nl m)") auto
    with False Cons e c show ?thesis by simp
  qed
qed (use assms(2) in simp)

lemma obj_prefix:
  assumes "\<forall>kv \<in> set kvs. wf_json (snd kv) \<and> cut_ok (snd kv)"
    and "k < length (json_enc l (JObj kvs))"
  shows "parse_value n (take k (json_enc l (JObj kvs))) = None"
proof (cases "k = 0 \<or> n = 0")
  case False
  then obtain k' n' where k: "k = Suc k'" and n: "n = Suc n'" by (cases k; cases n) auto
  show ?thesis
  proof (cases "kvs = []")
    case True
    with assms(2) k show ?thesis by (simp add: n)
  next
    case False
    let ?Y = "enc_members (Suc l) kvs @ nl l @ [125]"
    have k': "k' < length ?Y" using assms(2) k False by simp
    have "take k (json_enc l (JObj kvs)) = 123 # take k' ?Y" using k False by simp
    moreover have "parse_object n' [] (skip_ws (take k' ?Y)) = None"
      using members_cut [OF assms(1) False k'] .
    moreover have "skip_ws (take k' ?Y) = [] \<or> hd (skip_ws (take k' ?Y)) \<noteq> 125"
      using skip_take_members [OF False, of k' "Suc l" "nl l @ [125]"] by auto
    ultimately show ?thesis by (auto simp: n Let_def)
  qed
qed auto

lemma arr_prefix:
  assumes "\<forall>v \<in> set vs. wf_json v \<and> cut_ok v"
    and "k < length (json_enc l (JArr vs))"
  shows "parse_value n (take k (json_enc l (JArr vs))) = None"
proof (cases "k = 0 \<or> n = 0")
  case False
  then obtain k' n' where k: "k = Suc k'" and n: "n = Suc n'" by (cases k; cases n) auto
  show ?thesis
  proof (cases "vs = []")
    case True
    with assms(2) k show ?thesis by (simp add: n)
  next
    case False
    let ?Y = "enc_elems (Suc l) vs @ nl l @ [93]"
    have k': "k' < length ?Y" using assms(2) k False by simp
    have "take k (json_enc l (JArr vs)) = 91 # take k' ?Y" using k False by simp
    moreover have "parse_array n' [] (skip_ws (take k' ?Y)) = None"
      using elems_cut [OF assms(1) False k'] .
    moreover have "skip_ws (take k' ?Y) = [] \<or> hd (skip_ws (take k' ?Y)) \<noteq> 93"
      using skip_take_elems [of vs k' "Suc l" "nl l @ [93]"] assms(1) False by auto
    ultimately show ?thesis by (auto simp: n Let_def)
  qed
qed auto

lemma parse_value_numeric:
  assumes "(c = 45 \<and> (r = [] \<or> 48 \<le> hd r \<and> hd r \<le> 57)) \<or> (48 \<le> c \<and> c \<le> 57)"
  shows "parse_value (Suc n) (c # r) = match_number (c # r)"
proof -
  have c: "c \<noteq> 34 \<and> c \<noteq> 123 \<and> c \<noteq> 91 \<and> c \<noteq> 110 \<and> c \<noteq> 116 \<and> c \<noteq> 102 \<and> c \<noteq> 78 \<and> c \<noteq> 73"
    using assms by auto
  have "take 9 (c # r) \<noteq> ascii ''-Infinity''"
  proof (cases r)
    case (Cons x r')
    with assms have "c \<noteq> 45 \<or> x \<noteq> 73" by auto
    with Cons show ?thesis by auto
  qed simp
  with c show ?thesis by auto
qed

lemma number_tail_Nil: "\<exists>j. number_tail sg ip [] = Some (j, [])"
  by (simp add: number_tail_def match_frac_def match_exp_def)

lemma match_number_digits:
  assumes "49 \<le> d" "d \<le> 57" "list_all is_digit_cp ds" "sg = [] \<or> sg = [45]"
  shows "ends (match_number (sg @ d # ds))"
proof -
  have tw: "takeWhile is_digit_cp ds = ds" and dw: "dropWhile is_digit_cp ds = []"
    using assms(3) by (simp_all add: list_all_iff)
  obtain j where "number_tail sg (d # ds) [] = Some (j, [])" using number_tail_Nil by blast
  then show ?thesis using assms(1,2,4)
    by (auto simp add: match_number_def tw dw)
qed


lemma int_prefix:
  assumes "0 < k" "k < length (str_int i)"
  shows "ends (parse_value (Suc n) (take k (str_int i)))"
proof -
  define sg where "sg = (if i < 0 then [45::nat] else [])"
  define m where "m = (if i < 0 then nat (- i) else nat i)"
  have e: "str_int i = sg @ str_nat m" by (simp add: str_int_def sg_def m_def)
  have sg: "sg = [] \<and> m = nat i \<or> sg = [45] \<and> 0 < m" by (simp add: sg_def m_def)
  show ?thesis
  proof (cases "sg = [45] \<and> k = 1")
    case True
    then have "take k (str_int i) = [45]" using e by simp
    then show ?thesis by (simp add: match_number_def)
  next
    case False
    have "str_nat m \<noteq> [48]"
    proof
      assume z: "str_nat m = [48]"
      then have "m = 0" using str_nat_lead [of m] by auto
      with sg z e assms show False by auto
    qed
    then obtain d ds where n: "str_nat m = d # ds" and d: "49 \<le> d" "d \<le> 57"
      and ds: "list_all is_digit_cp ds" using str_nat_lead [of m] by blast
    define k' where "k' = k - length sg"
    have k': "0 < k'" using False assms(1) sg by (auto simp: k'_def)
    have tk: "take k (str_int i) = sg @ d # take (k' - 1) ds"
      using e n k' sg by (auto simp: k'_def take_Cons')
    have "list_all is_digit_cp (take (k' - 1) ds)"
      using ds by (auto simp: list_all_iff dest: in_set_takeD)
    then have "ends (match_number (sg @ d # take (k' - 1) ds))"
      using match_number_digits d sg by blast
    moreover have "parse_value (Suc n) (sg @ d # take (k' - 1) ds) = match_number (sg @ d # take (k' - 1) ds)"
      using sg d by (auto intro!: parse_value_numeric)
    ultimately show ?thesis using tk by simp
  qed
qed


lemma literal_prefix:
  assumes "k < length w" "w \<in> {ascii ''null'', ascii ''true'', ascii ''false''}"
  shows "parse_value n (take k w) = None"
proof (cases n)
  case (Suc n')
  have "k < 5" using assms by auto
  then have "k = 0 \<or> k = 1 \<or> k = 2 \<or> k = 3 \<or> k = 4" by linarith
  with assms Suc show ?thesis by (auto simp: match_number_def)
qed simp

lemma str_prefix:
  assumes "k < length (enc_str s)"
  shows "parse_value n (take k (enc_str s)) = None"
proof (cases "k = 0 \<or> n = 0")
  case False
  then obtain k' n' where k: "k = Suc k'" and n: "n = Suc n'" by (cases k; cases n) auto
  have "take k (enc_str s) = 34 # take k' (concat (map json_esc s))"
    using assms k by (simp add: enc_str_Cons)
  then show ?thesis by (simp add: n scan_str_cut)
qed auto

lemma cut_ok_all: "wf_json v \<Longrightarrow> cut_ok v"
proof (induction v)
  case (JArr vs)
  then have all: "\<forall>v \<in> set vs. wf_json v \<and> cut_ok v" by simp
  show ?case unfolding cut_ok_def
  proof (intro allI impI)
    fix l k n
    assume "k \<le> length (json_enc l (JArr vs))"
    then consider "k = length (json_enc l (JArr vs))" | "k < length (json_enc l (JArr vs))" by linarith
    then show "ends (parse_value n (take k (json_enc l (JArr vs))))"
    proof cases
      case 1
      then show ?thesis using parse_enc_any [OF JArr.prems, of "[]" n l] by (auto simp: stop_def)
    next
      case 2
      then show ?thesis by (simp only: arr_prefix [OF all 2] ends_None)
    qed
  qed
next
  case (JObj kvs)
  then have all: "\<forall>kv \<in> set kvs. wf_json (snd kv) \<and> cut_ok (snd kv)" by (auto simp: snds.simps)
  show ?case unfolding cut_ok_def
  proof (intro allI impI)
    fix l k n
    assume "k \<le> length (json_enc l (JObj kvs))"
    then consider "k = length (json_enc l (JObj kvs))" | "k < length (json_enc l (JObj kvs))" by linarith
    then show "ends (parse_value n (take k (json_enc l (JObj kvs))))"
    proof cases
      case 1
      then show ?thesis using parse_enc_any [OF JObj.prems, of "[]" n l] by (auto simp: stop_def)
    next
      case 2
      then show ?thesis by (simp only: obj_prefix [OF all 2] ends_None)
    qed
  qed
next
  case (JInt i)
  show ?case unfolding cut_ok_def
  proof (intro allI impI)
    fix l k n
    assume k: "k \<le> length (json_enc l (JInt i))"
    show "ends (parse_value n (take k (json_enc l (JInt i))))"
    proof (cases "k = length (json_enc l (JInt i))")
      case True
      then show ?thesis using parse_enc_any [OF JInt.prems, of "[]" n l] by (auto simp: stop_def)
    next
      case False
      with k int_prefix [of k i] show ?thesis by (cases n; cases "k = 0") auto
    qed
  qed
next
  case (JStr s)
  show ?case unfolding cut_ok_def
  proof (intro allI impI)
    fix l k n
    assume k: "k \<le> length (json_enc l (JStr s))"
    show "ends (parse_value n (take k (json_enc l (JStr s))))"
    proof (cases "k = length (json_enc l (JStr s))")
      case True
      then show ?thesis using parse_enc_any [OF JStr.prems, of "[]" n l] by (auto simp: stop_def)
    next
      case False
      with k str_prefix [of k s n] show ?thesis by simp
    qed
  qed
next
  case JNull
  show ?case unfolding cut_ok_def
  proof (intro allI impI)
    fix l k n
    assume k: "k \<le> length (json_enc l JNull)"
    show "ends (parse_value n (take k (json_enc l JNull)))"
    proof (cases "k = length (json_enc l JNull)")
      case True
      then show ?thesis using parse_enc_any [of JNull "[]" n l] by (auto simp: stop_def)
    next
      case False
      with k literal_prefix [of k "ascii ''null''" n] show ?thesis by simp
    qed
  qed
next
  case (JBool b)
  show ?case unfolding cut_ok_def
  proof (intro allI impI)
    fix l k n
    assume k: "k \<le> length (json_enc l (JBool b))"
    show "ends (parse_value n (take k (json_enc l (JBool b))))"
    proof (cases "k = length (json_enc l (JBool b))")
      case True
      then show ?thesis using parse_enc_any [of "JBool b" "[]" n l] by (auto simp: stop_def)
    next
      case False
      with k literal_prefix [of k "ascii ''true''" n] literal_prefix [of k "ascii ''false''" n]
      show ?thesis by (cases b) simp_all
    qed
  qed
qed simp


lemma json_loads_truncated:
  assumes "wf_json (JObj kvs)" and "k < length (json_dumps (JObj kvs))"
  shows "json_loads (take k (json_dumps (JObj kvs))) = None"
proof -
  have all: "\<forall>kv \<in> set kvs. wf_json (snd kv) \<and> cut_ok (snd kv)"
    using assms(1) cut_ok_all by simp
  have p: "parse_value m (take k (json_dumps (JObj kvs))) = None" for m
    using obj_prefix [OF all] assms(2) by (simp add: json_dumps_def)
  show ?thesis
  proof (cases k)
    case 0
    then show ?thesis by (simp add: json_loads_def)
  next
    case (Suc k')
    then obtain t where "take k (json_dumps (JObj kvs)) = 123 # t"
      by (cases "kvs = []") (auto simp: json_dumps_def)
    with p show ?thesis by (simp add: json_loads_def is_ws_def)
  qed
qed

end
