(* ===== verification/Codec.thy ===== *)
theory Codec
  imports Prelude
begin

text \<open>
  The text layer between \<open>self.data\<close> and the bytes of \<open>self.db_file\<close>: the files
  are opened in text mode with \<open>encoding='utf-8'\<close>, so \<open>_save_data\<close> writes the
  UTF-8 encoding of the JSON text and \<open>_load_data\<close> reads the file back through the
  strict UTF-8 decoder and the universal-newline translation of text mode.  A byte is
  a natural below 256.  The lemmas show that decoding inverts encoding on every
  string of Unicode scalar values, and that a proper prefix of an encoding decodes
  exactly when it ends on a character boundary: a cut inside a multi-byte
  character raises \<open>UnicodeDecodeError\<close>.
\<close>

type_synonym byte = nat

section \<open>Encoder\<close>

text \<open>A Unicode scalar value: a code point that is not a surrogate.\<close>

definition scalar :: "nat \<Rightarrow> bool" where
  "scalar c \<longleftrightarrow> c < 1114112 \<and> \<not> (55296 \<le> c \<and> c \<le> 57343)"

definition utf8_char :: "nat \<Rightarrow> byte list" where
  "utf8_char c =
     (if c < 128 then [c]
      else if c < 2048 then [192 + c div 64, 128 + c mod 64]
      else if c < 65536 then [224 + c div 4096, 128 + c div 64 mod 64, 128 + c mod 64]
      else [240 + c div 262144, 128 + c div 4096 mod 64, 128 + c div 64 mod 64, 128 + c mod 64])"

text \<open>
  \<open>str.encode('utf-8')\<close>, strict: a surrogate code point raises
  \<open>UnicodeEncodeError\<close> (\<^const>\<open>None\<close>).
\<close>

definition utf8_encode :: "pystr \<Rightarrow> byte list option" where
  "utf8_encode s = (if list_all scalar s then Some (concat (map utf8_char s)) else None)"

section \<open>Decoder\<close>

definition is_cont :: "byte \<Rightarrow> bool" where
  "is_cont b \<longleftrightarrow> 128 \<le> b \<and> b < 192"

text \<open>
  One character from a lead byte and the bytes after it, with the well-formedness
  table of the Unicode standard that CPython's decoder enforces (no overlong
  forms, no surrogates, nothing above U+10FFFF); \<^const>\<open>None\<close> is the
  \<open>UnicodeDecodeError\<close> for an invalid or a truncated sequence.
\<close>

definition utf8_seq :: "byte \<Rightarrow> byte list \<Rightarrow> (nat \<times> byte list) option" where
  "utf8_seq b bs =
     (if b < 128 then Some (b, bs)
      else if b < 194 then None
      else if b < 224 then
        (case bs of
           c1 # r \<Rightarrow> if is_cont c1 then Some ((b - 192) * 64 + (c1 - 128), r) else None
         | _ \<Rightarrow> None)
      else if b < 240 then
        (case bs of
           c1 # c2 # r \<Rightarrow>
             if is_cont c1 \<and> is_cont c2 \<and> (b = 224 \<longrightarrow> 160 \<le> c1) \<and> (b = 237 \<longrightarrow> c1 < 160)
             then Some ((b - 224) * 4096 + (c1 - 128) * 64 + (c2 - 128), r) else None
         | _ \<Rightarrow> None)
      else if b < 245 then
        (case bs of
           c1 # c2 # c3 # r \<Rightarrow>
             if is_cont c1 \<and> is_cont c2 \<and> is_cont c3 \<and> (b = 240 \<longrightarrow> 144 \<le> c1) \<and> (b = 244 \<longrightarrow> c1 < 144)
             then Some ((b - 240) * 262144 + (c1 - 128) * 4096 + (c2 - 128) * 64 + (c3 - 128), r)
             else None
         | _ \<Rightarrow> None)
      else None)"

text \<open>\<open>bytes.decode('utf-8')\<close>, strict.\<close>

function utf8_decode :: "byte list \<Rightarrow> pystr option" where
  "utf8_decode [] = Some []"
| "utf8_decode (b # bs) =
     (case utf8_seq b bs of
        None \<Rightarrow> None
      | Some (c, r) \<Rightarrow> map_option (Cons c) (utf8_decode r))"
  by pat_completeness auto
termination
  by (relation "measure length") (auto simp: utf8_seq_def split: if_splits list.splits)

text \<open>
  Universal newlines: reading in text mode turns \<open>\r\n\<close> and a lone \<open>\r\<close>
  into \<open>\n\<close>.
\<close>

fun univ_nl :: "pystr \<Rightarrow> pystr" where
  "univ_nl [] = []"
| "univ_nl (c # r) =
     (if c = 13 then 10 # univ_nl (if r \<noteq> [] \<and> hd r = 10 then tl r else r) else c # univ_nl r)"

text \<open>\<open>open(f, 'r', encoding='utf-8').read()\<close> of the bytes \<open>bs\<close>.\<close>

definition read_text :: "byte list \<Rightarrow> pystr option" where
  "read_text bs = map_option univ_nl (utf8_decode bs)"

section \<open>Lemmas\<close>

text \<open>The base-64 digits of a code point, as linear facts for \<open>linarith\<close>.\<close>

lemma digits64:
  fixes c :: nat
  shows "c = c div 64 * 64 + c mod 64" "c mod 64 < 64"
    "c div 64 = c div 4096 * 64 + c div 64 mod 64" "c div 64 mod 64 < 64"
    "c div 4096 = c div 262144 * 64 + c div 4096 mod 64" "c div 4096 mod 64 < 64"
proof -
  show "c = c div 64 * 64 + c mod 64" by simp
  show "c mod 64 < 64" "c div 64 mod 64 < 64" "c div 4096 mod 64 < 64" by simp_all
  have "c div 4096 = c div 64 div 64" by (simp add: div_mult2_eq[symmetric])
  then show "c div 64 = c div 4096 * 64 + c div 64 mod 64" by simp
  have "c div 262144 = c div 4096 div 64" by (simp add: div_mult2_eq[symmetric])
  then show "c div 4096 = c div 262144 * 64 + c div 4096 mod 64" by simp
qed

lemma utf8_seq_char:
  "scalar c \<Longrightarrow> utf8_seq (hd (utf8_char c)) (tl (utf8_char c) @ r) = Some (c, r)"
proof -
  assume sc: "scalar c"
  note d = digits64 [of c]
  consider "c < 128" | "128 \<le> c" "c < 2048" | "2048 \<le> c" "c < 65536" | "65536 \<le> c"
    by linarith
  then show ?thesis
  proof cases
    case 1
    then show ?thesis by (simp add: utf8_char_def utf8_seq_def)
  next
    case 2
    then have "2 \<le> c div 64" "c div 64 < 32" using d by linarith+
    with 2 show ?thesis by (simp add: utf8_char_def utf8_seq_def is_cont_def)
  next
    case 3
    have "c div 4096 < 16" "c div 4096 = 0 \<Longrightarrow> 32 \<le> c div 64 mod 64"
      "c div 4096 = 13 \<Longrightarrow> c div 64 mod 64 < 32"
      "c div 4096 * 4096 + c div 64 mod 64 * 64 + c mod 64 = c"
      using 3 sc d unfolding scalar_def by linarith+
    with 3 show ?thesis by (simp add: utf8_char_def utf8_seq_def is_cont_def)
  next
    case 4
    have "c div 262144 < 5"
      "c div 262144 = 0 \<Longrightarrow> 16 \<le> c div 4096 mod 64"
      "c div 262144 = 4 \<Longrightarrow> c div 4096 mod 64 < 16"
      "c div 262144 * 262144 + c div 4096 mod 64 * 4096 + c div 64 mod 64 * 64 + c mod 64 = c"
      using 4 sc d unfolding scalar_def by linarith+
    with 4 show ?thesis by (simp add: utf8_char_def utf8_seq_def is_cont_def)
  qed
qed


lemma utf8_char_Cons: "\<exists>b bs. utf8_char c = b # bs"
  by (simp add: utf8_char_def)

lemma utf8_char_len: "c < 128 \<longleftrightarrow> length (utf8_char c) = 1"
  by (simp add: utf8_char_def)

lemma utf8_decode_char:
  "scalar c \<Longrightarrow> utf8_decode (utf8_char c @ r) = map_option (Cons c) (utf8_decode r)"
  using utf8_seq_char [of c r] utf8_char_Cons [of c] by auto

lemma utf8_decode_enc_append:
  "list_all scalar s \<Longrightarrow>
   utf8_decode (concat (map utf8_char s) @ r) =
     (case utf8_decode r of None \<Rightarrow> None | Some t \<Rightarrow> Some (s @ t))"
  by (induction s) (simp_all add: utf8_decode_char split: option.split)

lemma utf8_decode_encode: "utf8_encode s = Some bs \<Longrightarrow> utf8_decode bs = Some s"
  using utf8_decode_enc_append [of s "[]"] by (simp add: utf8_encode_def split: if_splits)

text \<open>A cut strictly inside the encoding of one character is a truncated sequence.\<close>

lemma utf8_char_cut:
  assumes "scalar c" and "0 < k" and "k < length (utf8_char c)"
  shows "utf8_decode (take k (utf8_char c)) = None"
proof -
  note d = digits64 [of c]
  have "128 \<le> c" using assms(2,3) by (auto simp: utf8_char_def split: if_splits)
  then consider "128 \<le> c" "c < 2048" | "2048 \<le> c" "c < 65536" | "65536 \<le> c"
    by linarith
  then show ?thesis
  proof cases
    case 1
    then have "2 \<le> c div 64" "c div 64 < 32" using d by linarith+
    moreover from 1 assms(2,3) have "k = 1" by (simp add: utf8_char_def)
    ultimately show ?thesis using 1 by (simp add: utf8_char_def utf8_seq_def)
  next
    case 2
    then have "c div 4096 < 16" using d by linarith
    with 2 assms(2,3) have "k = 1 \<or> k = 2" by (simp add: utf8_char_def) linarith
    with 2 \<open>c div 4096 < 16\<close> show ?thesis by (auto simp: utf8_char_def utf8_seq_def)
  next
    case 3
    then have "c div 262144 < 5" using assms(1) d unfolding scalar_def by linarith
    with 3 assms(2,3) have "k = 1 \<or> k = 2 \<or> k = 3" by (simp add: utf8_char_def) linarith
    with 3 \<open>c div 262144 < 5\<close> show ?thesis by (auto simp: utf8_char_def utf8_seq_def)
  qed
qed

text \<open>A prefix of an encoding that decodes ends on a character boundary.\<close>

lemma utf8_decode_take:
  "list_all scalar s \<Longrightarrow> utf8_decode (take k (concat (map utf8_char s))) = Some t \<Longrightarrow>
   \<exists>j. t = take j s \<and> take k (concat (map utf8_char s)) = concat (map utf8_char (take j s))"
proof (induction s arbitrary: k t)
  case Nil
  then show ?case by (intro exI [of _ 0]) simp
next
  case (Cons c s)
  consider "k = 0" | "0 < k" "k < length (utf8_char c)" | "length (utf8_char c) \<le> k" by linarith
  then show ?case
  proof cases
    case 1
    with Cons.prems show ?thesis by (intro exI [of _ 0]) simp
  next
    case 2
    with Cons.prems utf8_char_cut [of c k] show ?thesis by simp
  next
    case 3
    let ?k = "k - length (utf8_char c)"
    have tk: "take k (concat (map utf8_char (c # s))) = utf8_char c @ take ?k (concat (map utf8_char s))"
      using 3 by simp
    with Cons.prems obtain t' where t': "utf8_decode (take ?k (concat (map utf8_char s))) = Some t'"
      and t: "t = c # t'"
      by (auto simp: utf8_decode_char)
    from Cons.IH [OF _ t'] Cons.prems obtain j where "t' = take j s"
      and "take ?k (concat (map utf8_char s)) = concat (map utf8_char (take j s))" by auto
    with t tk show ?thesis by (intro exI [of _ "Suc j"]) simp
  qed
qed

text \<open>Cutting a file just after the lead byte of a non-ASCII character.\<close>

lemma utf8_decode_cut:
  assumes "list_all scalar s" and "j < length s" and "128 \<le> s ! j"
  shows "utf8_decode (take (length (concat (map utf8_char (take j s))) + 1) (concat (map utf8_char s))) = None"
proof -
  have s: "s = take j s @ s ! j # drop (Suc j) s" using assms(2) by (simp add: id_take_nth_drop)
  obtain b bs where e: "utf8_char (s ! j) = b # bs" using utf8_char_Cons by blast
  have "take (length (concat (map utf8_char (take j s))) + 1) (concat (map utf8_char s)) =
        concat (map utf8_char (take j s)) @ take 1 (utf8_char (s ! j))"
    by (subst s) (simp add: e)
  moreover have "list_all scalar (take j s)" "scalar (s ! j)"
    using assms(1,2) by (simp_all add: list_all_length)
  moreover have "1 < length (utf8_char (s ! j))"
    using assms(3) by (simp add: utf8_char_def)
  ultimately show ?thesis
    by (simp add: utf8_decode_enc_append utf8_char_cut)
qed

lemma univ_nl_id: "13 \<notin> set s \<Longrightarrow> univ_nl s = s"
  by (induction s rule: univ_nl.induct) auto

end
