(* ===== verification/Persist.thy ===== *)
theory Persist
  imports JsonCut Codec Registry
begin

text \<open>
  The file behind the registry, \<open>_save_data\<close> and \<open>_load_data\<close> of
  \<open>src/database.py\<close>, down to its bytes.  \<open>db_to_json\<close> is \<open>self.data\<close> as the
  JSON object \<open>json.dump\<close> writes (the dictionaries' keys in the order the code
  inserts them); \<open>save_bytes\<close> is what \<open>_save_data\<close> leaves in the file (the
  UTF-8 encoding of the indented JSON text); \<open>load_file\<close> is \<open>_load_data\<close> on
  the bytes it finds.  The theory \<open>Registry\<close> abstracts the file as
  \<^const>\<open>Stored\<close> of the document last saved, which reloads to that document; the
  first theorem below justifies it.  \<open>_save_data\<close> opens the file with \<open>'w'\<close>,
  which truncates it, and then writes the text: a crash in between leaves a prefix
  of the bytes, and the other two theorems show what the next start makes of it.
\<close>

section \<open>The document and the file\<close>

text \<open>The JSON object of a message dictionary, keys in the order \<open>add_message\<close> builds it.\<close>

definition msg_json :: "message \<Rightarrow> json" where
  "msg_json m =
     JObj [(ascii ''text'', JStr (msg_text m)), (ascii ''timestamp'', JStr (timestamp m)),
           (ascii ''is_from_admin'', JBool (is_from_admin m))]"

definition opt_json :: "pystr option \<Rightarrow> json" where
  "opt_json x = (case x of None \<Rightarrow> JNull | Some s \<Rightarrow> JStr s)"

text \<open>A user dictionary, keys in the order of the literal in \<open>add_user\<close>.\<close>

definition user_json :: "user_rec \<Rightarrow> json" where
  "user_json u =
     JObj [(ascii ''user_id'', JInt (user_id u)), (ascii ''username'', opt_json (username u)),
           (ascii ''first_name'', opt_json (first_name u)), (ascii ''joined_date'', JStr (joined_date u)),
           (ascii ''messages'', JArr (map msg_json (messages u))), (ascii ''is_active'', JBool (is_active u))]"

definition db_to_json :: "db_data \<Rightarrow> json" where
  "db_to_json d =
     JObj [(ascii ''users'', JObj (map (\<lambda>(k, u). (k, user_json u)) (users d))),
           (ascii ''admin_messages'', JObj (map (\<lambda>(k, v). (k, JStr v)) (admin_messages d)))]"

text \<open>
  \<open>_save_data\<close>: \<open>json.dump(self.data, f, ensure_ascii=False, indent=2)\<close> into a
  file opened with \<open>'w'\<close> and \<open>encoding='utf-8'\<close>; the bytes it leaves, or
  \<^const>\<open>None\<close> for the \<open>UnicodeEncodeError\<close> a surrogate raises.
\<close>

definition save_bytes :: "db_data \<Rightarrow> byte list option" where
  "save_bytes d = utf8_encode (json_dumps (db_to_json d))"

text \<open>
  \<open>_load_data\<close> on the file's bytes (\<^const>\<open>None\<close>: \<open>os.path.exists\<close> is false): a
  \<open>JSONDecodeError\<close> gives the empty document, a \<open>UnicodeDecodeError\<close> escapes.
\<close>

definition load_file :: "byte list option \<Rightarrow> py_error + json" where
  "load_file f =
     (case f of
        None \<Rightarrow> Inr (db_to_json empty_data)
      | Some bs \<Rightarrow>
          (case read_text bs of
             None \<Rightarrow> Inl UnicodeDecodeError
           | Some t \<Rightarrow> (case json_loads t of None \<Rightarrow> Inr (db_to_json empty_data) | Some v \<Rightarrow> Inr v)))"


text \<open>The documents the registry keeps: dictionaries without repeated keys.\<close>

definition wf_doc :: "db_data \<Rightarrow> bool" where
  "wf_doc d \<longleftrightarrow> distinct (keys (users d)) \<and> distinct (keys (admin_messages d))"

text \<open>Every string of a value (keys included) is a sequence of Unicode scalar values.\<close>

fun json_scalar :: "json \<Rightarrow> bool" where
  "json_scalar (JStr s) = list_all scalar s"
| "json_scalar (JArr vs) = (\<forall>v \<in> set vs. json_scalar v)"
| "json_scalar (JObj kvs) = (\<forall>kv \<in> set kvs. list_all scalar (fst kv) \<and> json_scalar (snd kv))"
| "json_scalar _ = True"

section \<open>Lemmas\<close>

lemma wf_db_json: "wf_doc d \<Longrightarrow> wf_json (db_to_json d)"
  by (auto simp: wf_doc_def db_to_json_def user_json_def msg_json_def opt_json_def keys_def
      comp_def case_prod_beta split: option.split)

lemma ascii_scalar: "c < 128 \<Longrightarrow> scalar c"
  by (simp add: scalar_def)

lemma json_esc_scalar: "scalar c \<Longrightarrow> list_all scalar (json_esc c)"
  by (auto simp: json_esc_def hex_digit_def scalar_def)

lemma json_esc_no_cr: "13 \<notin> set (json_esc c)"
  by (auto simp: json_esc_def hex_digit_def)

lemma enc_str_scalar: "list_all scalar s \<Longrightarrow> list_all scalar (enc_str s)"
  by (induction s) (auto simp: enc_str_def json_esc_scalar ascii_scalar)

lemma str_int_ascii: "c \<in> set (str_int i) \<Longrightarrow> c < 128"
  using str_nat_digits [of "nat i"] str_nat_digits [of "nat (- i)"]
  by (auto simp: str_int_def list_all_iff is_digit_cp_def split: if_splits)

lemma nl_scalar: "list_all scalar (nl m)"
  by (simp add: nl_def scalar_def list_all_iff)

lemma json_enc_scalar: "wf_json v \<Longrightarrow> json_scalar v \<Longrightarrow> list_all scalar (json_enc l v)"
proof (induction v arbitrary: l)
  case (JArr vs)
  then have "list_all scalar (enc_elems m vs)" for m
    by (induction vs) (auto simp: nl_scalar ascii_scalar)
  then show ?case by (simp add: nl_scalar ascii_scalar)
next
  case (JObj kvs)
  then have "list_all scalar (enc_members m kvs)" for m
    by (induction kvs) (auto simp: nl_scalar ascii_scalar enc_str_scalar snds.simps)
  then show ?case by (simp add: nl_scalar ascii_scalar)
qed (simp_all add: enc_str_scalar, auto simp: list_all_iff ascii_scalar str_int_ascii)


lemma str_int_no_cr: "13 \<notin> set (str_int i)"
  using str_int_ascii [of 13 i] str_nat_digits [of "nat i"] str_nat_digits [of "nat (- i)"]
  by (auto simp: str_int_def list_all_iff is_digit_cp_def split: if_splits)

lemma enc_str_no_cr: "13 \<notin> set (enc_str s)"
  using json_esc_no_cr by (auto simp: enc_str_def)

lemma json_enc_no_cr: "wf_json v \<Longrightarrow> 13 \<notin> set (json_enc l v)"
proof (induction v arbitrary: l)
  case (JArr vs)
  then have "13 \<notin> set (enc_elems m vs)" for m
    by (induction vs) (auto simp: nl_def)
  then show ?case by (simp add: nl_def)
next
  case (JObj kvs)
  then have "13 \<notin> set (enc_members m kvs)" for m
    by (induction kvs) (auto simp: nl_def enc_str_no_cr snds.simps)
  then show ?case by (simp add: nl_def)
qed (simp_all add: enc_str_no_cr str_int_no_cr)

lemma save_bytes_enc:
  "save_bytes d = Some bs \<Longrightarrow>
   list_all scalar (json_dumps (db_to_json d)) \<and> bs = concat (map utf8_char (json_dumps (db_to_json d)))"
  by (simp add: save_bytes_def utf8_encode_def split: if_splits)

lemma read_text_dump:
  "wf_doc d \<Longrightarrow> utf8_decode bs = Some (take j (json_dumps (db_to_json d))) \<Longrightarrow>
   read_text bs = Some (take j (json_dumps (db_to_json d)))"
  using json_enc_no_cr [OF wf_db_json, of d 0]
  by (auto simp: read_text_def json_dumps_def dest: in_set_takeD intro!: univ_nl_id)

text \<open>What a concrete document evaluates with.\<close>

lemmas doc_eval = db_to_json_def user_json_def new_user_def opt_json_def json_dumps_def nl_def
  enc_str_def json_esc_def str_int_def str_nat.simps nth_append

lemmas save_eval = doc_eval save_bytes_def utf8_encode_def scalar_def utf8_char_def list_all_iff
  wf_doc_def keys_def

section \<open>Properties of the file\<close>

text \<open>
  (C9) Save/load round trip: for a registry document without repeated keys whose
  strings are Unicode text, \<open>_save_data\<close> writes bytes (no \<open>UnicodeEncodeError\<close>)
  from which \<open>_load_data\<close> reads back exactly that document, keys and records in the
  same order.  This is what the abstract file \<^const>\<open>Stored\<close> of \<open>Registry\<close>
  assumes.
\<close>

theorem saved_document_reloads:
  assumes "wf_doc d" and "json_scalar (db_to_json d)"
  shows "\<exists>bs. save_bytes d = Some bs \<and> load_file (Some bs) = Inr (db_to_json d)"
proof -
  let ?t = "json_dumps (db_to_json d)"
  have sc: "list_all scalar ?t"
    using json_enc_scalar [OF wf_db_json [OF assms(1)] assms(2)] by (simp add: json_dumps_def)
  then have sb: "save_bytes d = Some (concat (map utf8_char ?t))" by (simp add: save_bytes_def utf8_encode_def)
  have "utf8_decode (concat (map utf8_char ?t)) = Some (take (length ?t) ?t)"
    using utf8_decode_encode [of ?t] sc by (simp add: utf8_encode_def)
  then have "read_text (concat (map utf8_char ?t)) = Some (take (length ?t) ?t)"
    by (rule read_text_dump [OF assms(1)])
  with sb show ?thesis
    by (simp add: load_file_def json_loads_dumps wf_db_json [OF assms(1)])
qed


theorem saved_document_reloads_witness:
  "wf_doc (\<lparr>users = [(ascii ''5'', new_user 5 None (Some [233]) [])], admin_messages = []\<rparr>) \<and> json_scalar (db_to_json (\<lparr>users = [(ascii ''5'', new_user 5 None (Some [233]) [])], admin_messages = []\<rparr>)) \<and>
   (\<exists>bs. save_bytes (\<lparr>users = [(ascii ''5'', new_user 5 None (Some [233]) [])], admin_messages = []\<rparr>) = Some bs \<and> load_file (Some bs) = Inr (db_to_json (\<lparr>users = [(ascii ''5'', new_user 5 None (Some [233]) [])], admin_messages = []\<rparr>)))"
proof -
  have h: "wf_doc (\<lparr>users = [(ascii ''5'', new_user 5 None (Some [233]) [])], admin_messages = []\<rparr>)" "json_scalar (db_to_json (\<lparr>users = [(ascii ''5'', new_user 5 None (Some [233]) [])], admin_messages = []\<rparr>))" by (simp_all add: save_eval)
  show ?thesis using saved_document_reloads [OF h] h by simp
qed

text \<open>
  (C10) A crash during \<open>_save_data\<close> loses the registry: \<open>open(f, 'w')\<close> has
  truncated the file, and whatever proper prefix of the new bytes reached the disk,
  the next start either reads an empty registry (every user and timeline gone, the
  \<open>JSONDecodeError\<close> being caught) or raises \<open>UnicodeDecodeError\<close>.  The design
  requires an atomic write-then-rename that never leaves a partial file.
\<close>

theorem crash_during_save_loses_registry:
  assumes "wf_doc d" and "save_bytes d = Some bs" and "k < length bs"
  shows "load_file (Some (take k bs)) = Inr (db_to_json empty_data) \<or>
         load_file (Some (take k bs)) = Inl UnicodeDecodeError"
proof (cases "utf8_decode (take k bs)")
  case None
  then show ?thesis by (simp add: load_file_def read_text_def)
next
  case (Some t')
  let ?t = "json_dumps (db_to_json d)"
  have sc: "list_all scalar ?t" and bs: "bs = concat (map utf8_char ?t)"
    using save_bytes_enc [OF assms(2)] by auto
  from utf8_decode_take [OF sc, of k t'] Some bs
  obtain j where t': "t' = take j ?t" and tk: "take k bs = concat (map utf8_char (take j ?t))"
    by blast
  have j: "j < length ?t"
  proof (rule ccontr)
    assume "\<not> j < length ?t"
    then have "take k bs = bs" using tk bs by simp
    then have "length (take k bs) = length bs" by simp
    with assms(3) show False by simp
  qed
  obtain kvs where dj: "db_to_json d = JObj kvs" by (simp add: db_to_json_def)
  have "read_text (take k bs) = Some (take j ?t)"
    using read_text_dump [OF assms(1)] Some t' by simp
  moreover have "json_loads (take j ?t) = None"
    using json_loads_truncated [of kvs j] wf_db_json [OF assms(1)] j dj by simp
  ultimately show ?thesis by (simp add: load_file_def)
qed


theorem crash_during_save_loses_registry_witness:
  "wf_doc (\<lparr>users = [(ascii ''5'', new_user 5 None (Some [233]) [])], admin_messages = []\<rparr>) \<and>
   (\<exists>bs. save_bytes (\<lparr>users = [(ascii ''5'', new_user 5 None (Some [233]) [])], admin_messages = []\<rparr>) = Some bs \<and> 10 < length bs \<and>
      (load_file (Some (take 10 bs)) = Inr (db_to_json empty_data) \<or>
       load_file (Some (take 10 bs)) = Inl UnicodeDecodeError))"
proof -
  have h: "wf_doc (\<lparr>users = [(ascii ''5'', new_user 5 None (Some [233]) [])], admin_messages = []\<rparr>)" by (simp add: save_eval)
  obtain bs where b: "save_bytes (\<lparr>users = [(ascii ''5'', new_user 5 None (Some [233]) [])], admin_messages = []\<rparr>) = Some bs" and l: "10 < length bs"
    by (auto simp: save_eval)
  show ?thesis using crash_during_save_loses_registry [OF h b l] h b l by blast
qed

text \<open>
  (C11) Start-up can crash on a file cut by a crash: when the saved text has a
  non-ASCII character (a name or a message in most languages), a crash right
  after the first byte of that character leaves a file whose decoding raises
  \<open>UnicodeDecodeError\<close>, which \<open>_load_data\<close> does not catch; \<open>db =
  UserDatabase(DB_FILE)\<close> runs at import, so the bot cannot start.  The design says
  an unreadable store is treated as empty.
\<close>

theorem crash_in_character_raises:
  assumes "save_bytes d = Some bs" and "j < length (json_dumps (db_to_json d))"
    and "128 \<le> json_dumps (db_to_json d) ! j"
  shows "\<exists>k < length bs. load_file (Some (take k bs)) = Inl UnicodeDecodeError"
proof -
  let ?t = "json_dumps (db_to_json d)"
  let ?k = "length (concat (map utf8_char (take j ?t))) + 1"
  have sc: "list_all scalar ?t" and bs: "bs = concat (map utf8_char ?t)"
    using save_bytes_enc [OF assms(1)] by auto
  have "utf8_decode (take ?k bs) = None" using utf8_decode_cut [OF sc assms(2,3)] bs by simp
  moreover have "?k < length bs"
  proof -
    have e: "?t = take j ?t @ ?t ! j # drop (Suc j) ?t" using assms(2) by (simp add: id_take_nth_drop)
    have "length bs = length (concat (map utf8_char (take j ?t @ ?t ! j # drop (Suc j) ?t)))"
      unfolding bs using arg_cong [OF e, of "\<lambda>x. length (concat (map utf8_char x))"] by simp
    then have "length bs = length (concat (map utf8_char (take j ?t))) + length (utf8_char (?t ! j)) +
        length (concat (map utf8_char (drop (Suc j) ?t)))"
      by (simp del: append_take_drop_id)
    moreover have "1 < length (utf8_char (?t ! j))" using assms(3) by (simp add: utf8_char_def)
    ultimately show ?thesis by linarith
  qed
  ultimately show ?thesis by (auto simp: load_file_def read_text_def)
qed


theorem crash_in_character_raises_witness:
  "91 < length (json_dumps (db_to_json (\<lparr>users = [(ascii ''5'', new_user 5 None (Some [233]) [])], admin_messages = []\<rparr>))) \<and> 128 \<le> json_dumps (db_to_json (\<lparr>users = [(ascii ''5'', new_user 5 None (Some [233]) [])], admin_messages = []\<rparr>)) ! 91 \<and>
   (\<exists>bs. save_bytes (\<lparr>users = [(ascii ''5'', new_user 5 None (Some [233]) [])], admin_messages = []\<rparr>) = Some bs \<and> (\<exists>k < length bs. load_file (Some (take k bs)) = Inl UnicodeDecodeError))"
proof -
  have c: "json_dumps (db_to_json (\<lparr>users = [(ascii ''5'', new_user 5 None (Some [233]) [])], admin_messages = []\<rparr>)) ! 91 = 233 \<and> length (json_dumps (db_to_json (\<lparr>users = [(ascii ''5'', new_user 5 None (Some [233]) [])], admin_messages = []\<rparr>))) = 201"
    by (simp add: doc_eval)
  then have j: "91 < length (json_dumps (db_to_json (\<lparr>users = [(ascii ''5'', new_user 5 None (Some [233]) [])], admin_messages = []\<rparr>)))" "128 \<le> json_dumps (db_to_json (\<lparr>users = [(ascii ''5'', new_user 5 None (Some [233]) [])], admin_messages = []\<rparr>)) ! 91"
    by simp_all
  obtain bs where b: "save_bytes (\<lparr>users = [(ascii ''5'', new_user 5 None (Some [233]) [])], admin_messages = []\<rparr>) = Some bs" by (auto simp: save_eval)
  show ?thesis using crash_in_character_raises [OF b j] j b by blast
qed

end
