(* ===== verification/JsonFuel.thy ===== *)
theory JsonFuel
  imports Json
begin

text \<open>
  The fuel of the decoder model is never what makes it fail: a parse that succeeds
  with some fuel succeeds with twice the number of characters it consumes, so the
  fuel \<open>Suc (2 * length s)\<close> that \<open>json_loads\<close> gives is enough for every text,
  and \<open>json_loads\<close> is the unbounded recursive descent of the C scanner.  This
  justifies the fuel of the model; it is not a property of the repository's code.
\<close>

section \<open>Each step consumes text\<close>

lemma hex4_shorter: "hex4 s = Some (u, r) \<Longrightarrow> length r < length s"
  by (auto simp: hex4_def split: if_splits option.splits)

lemma scan_str_shorter: "scan_str acc s = Some (t, r) \<Longrightarrow> length r < length s"
proof (induction s arbitrary: acc rule: length_induct)
  case (1 s)
  have IH: "length s \<le> length s' \<or> length r < length s'" if "scan_str acc' s' = Some (t, r)" for acc' s'
    using 1(1) that by (meson not_le)
  from 1(2) show ?case
    by (cases s) (auto split: if_splits option.splits list.splits prod.splits dest!: IH hex4_shorter)
qed

lemma match_frac_le: "match_frac r = (fr, r1) \<Longrightarrow> length r1 \<le> length r"
  by (auto simp: match_frac_def length_dropWhile_le split: if_splits
      intro: le_trans [OF length_dropWhile_le])

lemma match_exp_le: "match_exp r = (ex, r1) \<Longrightarrow> length r1 \<le> length r"
  by (auto simp: match_exp_def Let_def split: if_splits prod.splits
      intro: le_trans [OF length_dropWhile_le])

lemma number_tail_le: "number_tail sg ip r = Some (v, r') \<Longrightarrow> length r' \<le> length r"
  by (auto simp: number_tail_def Let_def split: prod.splits if_splits
      dest!: match_frac_le match_exp_le)

lemma dropWhile_shorter: "length r \<le> length (dropWhile P xs) \<Longrightarrow> length r < Suc (length xs)"
  by (meson le_less_trans length_dropWhile_le le_imp_less_Suc)

lemma match_number_shorter: "match_number s = Some (v, r) \<Longrightarrow> length r < length s"
  by (cases s) (auto simp: match_number_def split: if_splits list.splits prod.splits
      dest!: number_tail_le dropWhile_shorter)

lemma skip_ws_le: "length (skip_ws s) \<le> length s"
  by (simp add: skip_ws_def length_dropWhile_le)

lemma length_skip_ws: "length (skip_ws s) = length s - length (takeWhile is_ws s)"
  by (metis add_diff_cancel_left' length_append skip_ws_def takeWhile_dropWhile_id)

lemma skip_ws_nonempty: "skip_ws s \<noteq> [] \<Longrightarrow> length (takeWhile is_ws s) < length s"
  unfolding skip_ws_def by (induction s) auto

lemma parse_object_SomeE:
  assumes "parse_object (Suc n) acc s = Some (v, r)"
  obtains (close) t k r1 w r3 where "s = 34 # t" "scan_str [] t = Some (k, r1)"
    "skip_ws r1 \<noteq> []" "hd (skip_ws r1) = 58" "parse_value n (skip_ws (tl (skip_ws r1))) = Some (w, r3)"
    "skip_ws r3 \<noteq> []" "hd (skip_ws r3) = 125" "v = JObj (py_dict (acc @ [(k, w)]))" "r = tl (skip_ws r3)"
  | (more) t k r1 w r3 where "s = 34 # t" "scan_str [] t = Some (k, r1)"
    "skip_ws r1 \<noteq> []" "hd (skip_ws r1) = 58" "parse_value n (skip_ws (tl (skip_ws r1))) = Some (w, r3)"
    "skip_ws r3 \<noteq> []" "hd (skip_ws r3) = 44"
    "parse_object n (acc @ [(k, w)]) (skip_ws (tl (skip_ws r3))) = Some (v, r)"
  using assms by (cases s) (auto simp: Let_def split: if_split_asm option.split_asm prod.split_asm)

lemma parse_array_SomeE:
  assumes "parse_array (Suc n) acs s = Some (v, r)"
  obtains (close) w r1 where "parse_value n s = Some (w, r1)" "skip_ws r1 \<noteq> []" "hd (skip_ws r1) = 93"
    "v = JArr (acs @ [w])" "r = tl (skip_ws r1)"
  | (more) w r1 where "parse_value n s = Some (w, r1)" "skip_ws r1 \<noteq> []" "hd (skip_ws r1) = 44"
    "parse_array n (acs @ [w]) (skip_ws (tl (skip_ws r1))) = Some (v, r)"
  using assms by (auto simp: Let_def split: if_split_asm option.split_asm prod.split_asm)

lemma parse_shorter:
  "(\<forall>s v r. parse_value n s = Some (v, r) \<longrightarrow> length r < length s) \<and>
   (\<forall>acc s v r. parse_object n acc s = Some (v, r) \<longrightarrow> length r < length s) \<and>
   (\<forall>acs s v r. parse_array n acs s = Some (v, r) \<longrightarrow> length r < length s)"
proof (induction n)
  case 0
  then show ?case by simp
next
  case (Suc n)
  have V: "parse_value n s = Some (v, r) \<Longrightarrow> length r < length s" for s v r
    using Suc.IH by blast
  have O: "parse_object n acc s = Some (v, r) \<Longrightarrow> length r < length s" for acc s v r
    using Suc.IH by blast
  have A: "parse_array n acs s = Some (v, r) \<Longrightarrow> length r < length s" for acs s v r
    using Suc.IH by blast
  have W: "length r < length (skip_ws s) \<Longrightarrow> length r < length s" for r s
    using skip_ws_le [of s] by linarith
  show ?case
  proof (intro conjI allI impI)
    fix s v r
    assume p: "parse_value (Suc n) s = Some (v, r)"
    show "length r < length s"
    proof (cases s)
      case (Cons c t)
      with p show ?thesis
        using skip_ws_le [of t]
        by (auto simp: Let_def split: if_split_asm dest!: scan_str_shorter match_number_shorter O A W)
    qed (use p in simp)
  next
    fix acc s v r
    assume p: "parse_object (Suc n) acc s = Some (v, r)"
    show "length r < length s"
    proof (cases s)
      case (Cons c t)
      with p show ?thesis
        by (auto simp: Let_def split: if_split_asm option.split_asm prod.split_asm
            dest!: scan_str_shorter V O W) (auto simp: length_skip_ws)
    qed (use p in simp)
  next
    fix acs s v r
    assume "parse_array (Suc n) acs s = Some (v, r)"
    then show "length r < length s"
      by (auto simp: Let_def split: if_split_asm option.split_asm prod.split_asm dest!: V A W)
        (auto simp: length_skip_ws)
  qed
qed

lemma parse_fuel:
  "(\<forall>s v r. parse_value n s = Some (v, r) \<longrightarrow> parse_value (2 * (length s - length r)) s = Some (v, r)) \<and>
   (\<forall>acc s v r. parse_object n acc s = Some (v, r) \<longrightarrow>
      parse_object (2 * (length s - length r)) acc s = Some (v, r)) \<and>
   (\<forall>acs s v r. parse_array n acs s = Some (v, r) \<longrightarrow>
      parse_array (2 * (length s - length r)) acs s = Some (v, r))"
proof (induction n)
  case 0
  then show ?case by simp
next
  case (Suc n)
  have V: "parse_value k s = Some (v, r)"
    if "parse_value n s = Some (v, r)" "2 * (length s - length r) \<le> k" for k s v r
    using Suc.IH that parse_value_mono by blast
  have O: "parse_object k acc s = Some (v, r)"
    if "parse_object n acc s = Some (v, r)" "2 * (length s - length r) \<le> k" for k acc s v r
    using Suc.IH that parse_mono by blast
  have A: "parse_array k acs s = Some (v, r)"
    if "parse_array n acs s = Some (v, r)" "2 * (length s - length r) \<le> k" for k acs s v r
    using Suc.IH that parse_mono by blast
  have SV: "parse_value n s = Some (v, r) \<Longrightarrow> length r < length s"
    and SO: "parse_object n acc s = Some (v, r) \<Longrightarrow> length r < length s"
    and SA: "parse_array n acs s = Some (v, r) \<Longrightarrow> length r < length s" for s v r acc acs
    using parse_shorter by blast+
  show ?case
  proof (intro conjI allI impI)
    fix s v r
    assume p: "parse_value (Suc n) s = Some (v, r)"
    show "parse_value (2 * (length s - length r)) s = Some (v, r)"
    proof (cases s)
      case (Cons c t)
      have "length r < length s" using parse_shorter p by blast
      then have e: "2 * (length s - length r) = Suc (Suc (2 * (length t - length r)))"
        using Cons by simp
      show ?thesis
        unfolding e
      proof -
        let ?K = "Suc (2 * (length t - length r))"
        have o: "parse_object ?K [] (skip_ws t) = Some (v, r)"
          if "parse_object n [] (skip_ws t) = Some (v, r)"
          using O [OF that, of ?K] SO [OF that] by (simp add: length_skip_ws)
        have a: "parse_array ?K [] (skip_ws t) = Some (v, r)"
          if "parse_array n [] (skip_ws t) = Some (v, r)"
          using A [OF that, of ?K] SA [OF that] by (simp add: length_skip_ws del: parse_array.simps)
        show "parse_value (Suc ?K) s = Some (v, r)"
          using p Cons o a by (auto simp: Let_def simp del: parse_array.simps split: if_split_asm)
      qed
    qed (use p in simp)
  next
    fix acc s v r
    assume p: "parse_object (Suc n) acc s = Some (v, r)"
    show "parse_object (2 * (length s - length r)) acc s = Some (v, r)"
    proof (cases s)
      case (Cons c t)
      have "length r < length s" using parse_shorter p by blast
      then have e: "2 * (length s - length r) = Suc (Suc (2 * (length t - length r)))"
        using Cons by simp
      from p Cons obtain k r1 w r3 where
        c: "c = 34" and k: "scan_str [] t = Some (k, r1)"
        and col: "skip_ws r1 \<noteq> [] \<and> hd (skip_ws r1) = 58"
        and w: "parse_value n (skip_ws (tl (skip_ws r1))) = Some (w, r3)"
        and rest: "(skip_ws r3 \<noteq> [] \<and> hd (skip_ws r3) = 125 \<and>
                    v = JObj (py_dict (acc @ [(k, w)])) \<and> r = tl (skip_ws r3)) \<or>
                   (skip_ws r3 \<noteq> [] \<and> hd (skip_ws r3) \<noteq> 125 \<and> hd (skip_ws r3) = 44 \<and>
                    parse_object n (acc @ [(k, w)]) (skip_ws (tl (skip_ws r3))) = Some (v, r))"
        by (cases rule: parse_object_SomeE) auto
      have "length r \<le> length r3"
        using rest by (auto simp: length_skip_ws dest!: SO)
      moreover have "length (skip_ws (tl (skip_ws r1))) \<le> length t"
        using scan_str_shorter [OF k] by (simp add: length_skip_ws)
      ultimately have w': "parse_value (Suc (2 * (length t - length r))) (skip_ws (tl (skip_ws r1))) = Some (w, r3)"
        by (intro V [OF w]) simp
      have "length r3 < length t"
        using SV [OF w] \<open>length (skip_ws (tl (skip_ws r1))) \<le> length t\<close> by fastforce
      have o: "parse_object (Suc (2 * (length t - length r))) (acc @ [(k, w)]) (skip_ws (tl (skip_ws r3))) = Some (v, r)"
        if "parse_object n (acc @ [(k, w)]) (skip_ws (tl (skip_ws r3))) = Some (v, r)"
        using O [OF that, of "Suc (2 * (length t - length r))"] SO [OF that] \<open>length r3 < length t\<close>
        by (simp add: length_skip_ws)
      from rest show ?thesis
        unfolding e using Cons c k col w' o by (auto simp: Let_def)
    qed (use p in simp)
  next
    fix acs s v r
    assume p: "parse_array (Suc n) acs s = Some (v, r)"
    from p obtain w r1 where w: "parse_value n s = Some (w, r1)"
      and rest: "(skip_ws r1 \<noteq> [] \<and> hd (skip_ws r1) = 93 \<and> v = JArr (acs @ [w]) \<and> r = tl (skip_ws r1)) \<or>
                 (skip_ws r1 \<noteq> [] \<and> hd (skip_ws r1) \<noteq> 93 \<and> hd (skip_ws r1) = 44 \<and>
                  parse_array n (acs @ [w]) (skip_ws (tl (skip_ws r1))) = Some (v, r))"
      by (cases rule: parse_array_SomeE) auto
    have r: "length r < length r1"
      using rest by (auto simp: length_skip_ws dest: skip_ws_nonempty dest!: SA)
    have r1: "length r1 < length s"
      using SV [OF w] .
    define K where "K = 2 * (length s - length r) - 1"
    have e: "2 * (length s - length r) = Suc K"
      using r r1 by (simp add: K_def)
    have w': "parse_value K s = Some (w, r1)"
      using r r1 by (intro V [OF w]) (simp add: K_def)
    show "parse_array (2 * (length s - length r)) acs s = Some (v, r)"
    proof -
      have a: "parse_array K (acs @ [w]) (skip_ws (tl (skip_ws r1))) = Some (v, r)"
        if "skip_ws r1 \<noteq> []" "parse_array n (acs @ [w]) (skip_ws (tl (skip_ws r1))) = Some (v, r)"
        using A [OF that(2), of K] skip_ws_nonempty [OF that(1)] r r1
        by (simp add: K_def length_skip_ws)
      show ?thesis
        unfolding e using rest w' a by (auto simp: Let_def)
    qed
  qed
qed


section \<open>The fuel of json_loads\<close>

text \<open>
  Termination of the decoder model: \<open>json_loads\<close> accepts a text exactly when the
  text has no byte-order mark and the scanner's recursive descent, run with as much
  fuel as it asks for, reads one value followed by whitespace only; the fuel that
  \<open>json_loads\<close> gives never runs out first.
\<close>

theorem json_loads_fuel_enough:
  "json_loads s = Some v \<longleftrightarrow>
     \<not> (s \<noteq> [] \<and> hd s = 65279) \<and> (\<exists>n r. parse_value n (skip_ws s) = Some (v, r) \<and> skip_ws r = [])"
proof
  assume "json_loads s = Some v"
  then show "\<not> (s \<noteq> [] \<and> hd s = 65279) \<and> (\<exists>n r. parse_value n (skip_ws s) = Some (v, r) \<and> skip_ws r = [])"
    by (auto simp: json_loads_def split: if_split_asm option.split_asm prod.split_asm)
next
  assume "\<not> (s \<noteq> [] \<and> hd s = 65279) \<and> (\<exists>n r. parse_value n (skip_ws s) = Some (v, r) \<and> skip_ws r = [])"
  then obtain n r where b: "\<not> (s \<noteq> [] \<and> hd s = 65279)"
    and p: "parse_value n (skip_ws s) = Some (v, r)" and e: "skip_ws r = []" by blast
  have "parse_value (2 * (length (skip_ws s) - length r)) (skip_ws s) = Some (v, r)"
    using parse_fuel p by blast
  moreover have "2 * (length (skip_ws s) - length r) \<le> Suc (2 * length s)"
    using skip_ws_le [of s] by linarith
  ultimately have "parse_value (Suc (2 * length s)) (skip_ws s) = Some (v, r)"
    by (rule parse_value_mono)
  with b e show "json_loads s = Some v"
    by (simp add: json_loads_def)
qed

end
