(* ===== verification/Spec2Isabelle.thy ===== *)
theory Spec2Isabelle
  imports Dispatch Persist JsonFuel
begin

text \<open>
  \<^bold>\<open>A verification development of the Telegram relay bot\<close>
  (\<open>src/bot.py\<close>, \<open>src/database.py\<close>).

  \<^bold>\<open>The program.\<close>  One operator (\<open>ADMIN_USER_ID\<close>) talks with many anonymous
  clients through the bot.  A client's message is recorded in a JSON registry and
  forwarded to the operator; the operator lists users, reads statistics, replies to
  one user by id, broadcasts to all active users, blocks and unblocks users, and can
  pick a reply target from inline buttons.  Its parts:
  \<^item> the registry, class \<open>UserDatabase\<close> of \<open>database.py\<close>: a dictionary from
    \<open>str(user_id)\<close> to user records with their message timelines, written whole to
    a file after every change and read back at start (an absent or corrupt file
    gives an empty registry);
  \<^item> the relay handlers of \<open>bot.py\<close>: \<open>start\<close>, \<open>help_command\<close>,
    \<open>handle_client_message\<close> (client to operator), \<open>users_command\<close>,
    \<open>stats_command\<close>, \<open>reply_command\<close>, \<open>block_command\<close>, \<open>unblock_command\<close>,
    \<open>handle_admin_message\<close>, \<open>button_callback\<close>, \<open>broadcast_command\<close>;
  \<^item> the process globals \<open>db\<close> and \<open>admin_current_chat\<close> (the reply target);
  \<^item> \<open>main\<close>'s handler table, which routes each Telegram update to one handler.
  The handlers share the registry and the reply target; they reach the outside world
  only through Telegram calls (\<open>reply_text\<close>, \<open>send_message\<close>, \<open>answer\<close>,
  \<open>edit_message_text\<close>).

  \<^bold>\<open>The theories.\<close>
  \<^item> \<open>Prelude\<close>: the type \<open>pystr\<close> of Python strings (code-point lists), the Python
    exceptions, the fact collections, and association-list lemmas: a Python dict is
    an association list updated by \<open>AList.update\<close> (new keys at the end) and
    \<open>AList.map_entry\<close> (in-place mutation).
  \<^item> \<open>PyStr\<close>: \<open>str(int)\<close>, \<open>int(str)\<close> with CPython's grammar (surrounding
    whitespace, sign, underscores between digits), \<open>split\<close>, \<open>join\<close>,
    \<open>startswith\<close>, \<open>v or d\<close>, slices, \<open>range\<close> with a step and the chunking of a
    string.  Lemmas: \<open>int(str(i)) = i\<close> (so \<open>str\<close> is injective and the registry's
    keys identify ids), the split of a \<open>reply_<id>\<close> payload, and the
    chunking's equivalence with a recursive reference and its lossless round trip.
  \<^item> \<open>PyFloat\<close>: the one float of the program, the average of \<open>stats_command\<close>:
    \<open>py_truediv\<close> is \<open>int / int\<close> as CPython computes it (the nearest binary64,
    ties to an even significand, subnormals, \<open>OverflowError\<close> from \<open>2^1024\<close>, a
    double being a pair \<open>(m, e)\<close> of value \<open>m * 2 powr e\<close>) and \<open>fmt_1f\<close> the
    format spec \<open>:.1f\<close> (the exact binary value rounded to one decimal, ties to
    even), both over the integers and executable.  Lemmas: the rounding \<open>rne\<close>
    is the closest integer, even on ties (IEEE round-to-nearest-even); the
    division errs by at most \<open>2^-53\<close> relative (\<open>2^-1075\<close> absolute when
    subnormal) and does not overflow below \<open>2^1023\<close>; the format errs by at most
    \<open>1/20\<close>.
  \<^item> \<open>Registry\<close>: \<open>UserDatabase\<close>; records \<open>message\<close>, \<open>user_rec\<close>, \<open>db_data\<close>,
    \<open>udb\<close>, the file state \<open>db_file_state\<close>, one definition per method
    (\<open>load_data\<close>, \<open>init_db\<close>, \<open>save_data\<close>, \<open>add_user\<close>, \<open>get_user\<close>,
    \<open>add_message\<close>, \<open>get_user_messages\<close>, \<open>get_all_users\<close>,
    \<open>deactivate_user\<close>, \<open>activate_user\<close>); \<open>datetime.now()\<close> is a parameter; a
    ghost counter \<open>saves\<close> counts \<open>_save_data\<close> calls.  The invariant \<open>reg_inv\<close>
    (keys are \<open>str\<close> of the stored id, distinct; the file reloads to the memory
    state) is kept by every method; the registry refines a finite map with
    upsert/append/set-flag operations (\<open>registry_refines_map\<close>); \<open>db_grows\<close>
    says timelines only grow and records keep their identity.
  \<^item> \<open>Bot\<close>: the Telegram objects, one \<open>notice\<close> constructor per literal message of
    \<open>bot.py\<close>, the actions a handler performs in order, the state record \<open>bot\<close>
    (the two globals), the environment \<open>env\<close> (admin id, clock, the transport's
    answer \<open>deliver\<close> to each \<open>send_message\<close>) and the \<open>outcome\<close> of a handler
    (new state, actions, escaped exception).
  \<^item> \<open>Client\<close>: \<open>start\<close>, \<open>help_command\<close>, \<open>handle_client_message\<close>.
  \<^item> \<open>Admin\<close>: the operator's commands, the user listing rendered code point by
    code point, the selection keyboard and \<open>button_callback\<close>.
  \<^item> \<open>Broadcast\<close>: the loop of \<open>broadcast_command\<close> as a recursive function with
    its counters, and its closed form.
  \<^item> \<open>Dispatch\<close>: \<open>handle_message\<close>, the handler table \<open>dispatch\<close>, the interface
    \<open>db_op\<close> (each handler makes at most one state-changing registry call), the
    per-user state machine \<open>status_of\<close>/\<open>status_trans\<close>, the step relation
    \<open>bot_step\<close> (any update, clock and transport behaviour) and \<open>reachable\<close>.
  \<^item> \<open>Codec\<close>: the strict \<open>utf-8\<close> codec of CPython (\<open>utf8_encode\<close>, with
    \<^const>\<open>None\<close> for the \<open>UnicodeEncodeError\<close> of a surrogate; \<open>utf8_decode\<close>, which
    rejects overlong forms, surrogates and code points past U+10FFFF) and the
    universal-newline translation of a text-mode read (\<open>read_text\<close>).  Lemmas:
    decoding inverts encoding, and a byte string cut just after the lead byte of a
    multi-byte character does not decode.
  \<^item> \<open>Json\<close>: the library's \<open>json\<close> module as \<open>_save_data\<close> and
    \<open>_load_data\<close> call it: the value type \<open>json\<close> (a dict an association list,
    a float kept as its lexeme), the indented encoder of \<open>_make_iterencode\<close> with
    \<open>ensure_ascii=False\<close> (\<open>json_dumps\<close>), and the C scanner (\<open>scan_once\<close>,
    \<open>_parse_object\<close>, \<open>_parse_array\<close>, strict \<open>scanstring\<close>, \<open>_match_number\<close>)
    with fuel (\<open>json_loads\<close>).  Each nested value costs one unit of fuel and
    needs at least one character of the text, so \<open>json_loads\<close> gives the parser
    \<open>Suc (2 * length s)\<close> units, more than any text needs (\<open>need_le_length\<close>);
    parsing is monotone in the fuel (\<open>parse_mono\<close>).  Theorem
    \<open>json_loads_dumps\<close>: loading the dump of a value without repeated keys gives
    the value back.
  \<^item> \<open>JsonCut\<close>: no proper prefix of the dump of an object is a JSON document
    (\<open>json_loads_truncated\<close>), by a simultaneous induction showing that the
    scanner, fed a prefix of an encoding, fails or stops at its end.
  \<^item> \<open>JsonFuel\<close>: the fuel of the decoder is enough for every text.  A parse that
    succeeds consumes text at every step and succeeds with twice the number of
    characters it consumes (\<open>parse_fuel\<close>), so \<open>json_loads\<close>, which gives
    \<open>Suc (2 * length s)\<close>, is the unbounded recursive descent
    (\<open>json_loads_fuel_enough\<close>): no result of the model is an artefact of fuel.
  \<^item> \<open>Persist\<close>: the registry's file at the level of bytes: the document
    \<open>db_to_json\<close> (keys in the order the code inserts them), the bytes
    \<open>save_bytes\<close> that \<open>_save_data\<close> writes and \<open>load_file\<close>, which is
    \<open>_load_data\<close> on the bytes found, \<open>JSONDecodeError\<close> caught and
    \<open>UnicodeDecodeError\<close> escaping.  Its first theorem justifies the abstraction of
    the file in \<open>Registry\<close> (a saved document reloads to itself).
  \<^item> this theory: the properties that span the components.

  \<^bold>\<open>How the model corresponds to the code.\<close>  Each handler is a function of the
  environment, the state and the update's data, returning the outcome.  Updates are
  handled one at a time (python-telegram-bot processes updates sequentially by
  default), so a run is a sequence of \<open>bot_step\<close>s and interleaving inside a
  handler does not arise.  A failure of \<open>send_message\<close> is the transport's answer
  \<open>Send_failed\<close>; the \<open>try\<close>/\<open>except\<close> of the code becomes a case on it.  An
  exception that escapes a handler (\<open>AttributeError\<close> on an operator's media
  message, \<open>ValueError\<close> on a malformed button payload) is the outcome's
  \<open>raised\<close> field, with the state changes made before it kept.  No loop of the
  program is unbounded: the broadcast loop and the listing split recurse on
  lists, \<open>range\<close> and the chunking terminate by the measure \<open>stop - start\<close> and
  the length of the rest, so the program's own loops need no fuel; only the
  model of the library's JSON scanner does (see \<open>Json\<close>).

  \<^bold>\<open>What the properties show\<close> (claim ids in the text before each theorem):
  the registry stays well formed and durable in every run (C1); timelines are
  append-only and records keep their identity (C2); the client path records then
  forwards (C3) and the block flag gates it (C4, C5); operator replies are recorded
  exactly when delivered (C6); broadcasts isolate per-recipient failures (C7); the
  registry refines a map (C8).  The file: what is saved reloads exactly (C9), but
  a crash during the truncating write loses the whole registry (C10) or, when a
  name or message is not ASCII, can leave a file on which the start-up raises
  (C11).  The upsert is idempotent (C12); user states follow the design's state
  machine (C13); operator commands ignore other senders (C14).  The places where
  the code departs from its design are proved as they are: unregistered clients
  are told they are blocked (C15), replies to unknown ids are reported sent and
  recorded nowhere (C16), the reply target chosen with a button is never read
  (C17, C18).  The operator's views: the selection buttons round-trip to the
  listed user (C19), the listing is split losslessly (C20), \<open>/stats\<close> prints
  the float mean within \<open>1/20\<close> of the exact mean (C21), deactivation hides
  exactly that user (C22); the remaining error paths and divergences (C23 to C27)
  are stated at the handler that has them.

  \<^bold>\<open>Not modelled.\<close>  Of the \<open>json\<close> module: the limit of 4300 digits on
  \<open>int()\<close> (its \<open>ValueError\<close> would escape \<open>_load_data\<close>), the
  \<open>RecursionError\<close> of deeply nested documents, the value of floats (kept as
  lexemes; the registry stores none) and \<open>NaN\<close>/\<open>Infinity\<close> on output; of the
  file: Windows newline translation on write, disks that reorder or tear writes
  inside a byte, a document that is valid JSON but not of the registry's shape
  (the code then fails later with \<open>KeyError\<close>).  Logging, the Telegram wire
  format and command parsing beyond whitespace-separated arguments,
  \<open>reply_text\<close> failures, Unicode decimal digits other than ASCII in
  \<open>int()\<close>, \<open>config.py\<close> (not in the repository; its three values are
  parameters) and \<open>test_bot.py\<close> (a connectivity check that calls
  \<open>get_me\<close>).
\<close>

section \<open>Lemmas\<close>

lemma wf_users_ids_distinct:
  assumes "wf_users us"
  shows "distinct (map user_id (map snd us))"
proof -
  from assms have k: "keys us = map (\<lambda>p. str_int (user_id (snd p))) us"
    by (auto simp: wf_users_def keys_def list_all_iff intro!: map_cong)
  from assms have "distinct (map (str_int \<circ> (\<lambda>p. user_id (snd p))) us)"
    by (simp add: wf_users_def k comp_def)
  then have "distinct (map (\<lambda>p. user_id (snd p)) us)"
    by (simp add: distinct_map inj_on_def)
  then show ?thesis by (simp add: comp_def)
qed

lemma start_step:
  "bot_step 1 (init_bot [] No_file)
     (post (dispatch \<lparr>admin_user_id = 1, now = [], deliver = (\<lambda>_ _. Sent)\<rparr> (init_bot [] No_file)
        (Command \<lparr>tg_id = 5, tg_username = None, tg_first_name = [65]\<rparr> (ascii ''start'') [])))"
  by (rule bot_step.handle) simp

lemma start_reachable:
  "reachable 1 (post (dispatch \<lparr>admin_user_id = 1, now = [], deliver = (\<lambda>_ _. Sent)\<rparr> (init_bot [] No_file)
        (Command \<lparr>tg_id = 5, tg_username = None, tg_first_name = [65]\<rparr> (ascii ''start'') [])))"
proof (rule reachable.step [OF _ start_step])
  show "reachable 1 (init_bot [] No_file)"
    by (rule reachable.init) (simp add: empty_data_def)
qed

section \<open>Properties that span the components\<close>

text \<open>
  (C1) In every reachable state of the bot (any sequence of updates, clock values
  and transport failures, from a fresh start): no two records have the same
  \<open>user_id\<close>; a lookup by id finds the record of that id; and reloading the file
  (a restart) gives exactly the registry in memory.
\<close>

theorem registry_safe_in_every_run:
  assumes "reachable adm b"
  shows "distinct (map user_id (map snd (users (data (db b))))) \<and>
         (\<forall>uid u. get_user uid (db b) = Some u \<longrightarrow> user_id u = uid) \<and>
         data (init_db f (disk (db b))) = data (db b)"
proof -
  from assms have inv: "reg_inv (db b)" by (rule reachable_reg_inv)
  then have "distinct (map user_id (map snd (users (data (db b)))))"
    by (simp add: reg_inv_def wf_users_ids_distinct del: map_map)
  with inv show ?thesis
    by (auto simp: reg_inv_def init_db_def intro: get_user_id)
qed

theorem registry_safe_in_every_run_witness:
  "reachable 1 (post (dispatch \<lparr>admin_user_id = 1, now = [], deliver = (\<lambda>_ _. Sent)\<rparr> (init_bot [] No_file)
        (Command \<lparr>tg_id = 5, tg_username = None, tg_first_name = [65]\<rparr> (ascii ''start'') []))) \<and>
   distinct (map user_id (map snd (users (data (db (post (dispatch \<lparr>admin_user_id = 1, now = [], deliver = (\<lambda>_ _. Sent)\<rparr>
        (init_bot [] No_file) (Command \<lparr>tg_id = 5, tg_username = None, tg_first_name = [65]\<rparr> (ascii ''start'') []))))))))"
  using start_reachable registry_safe_in_every_run [OF start_reachable] by blast

text \<open>
  (C2) Append-only ledger: along any run, every user's timeline in an earlier state
  is a prefix of its timeline in a later state (nothing is removed, changed or
  reordered), and a registered user stays registered with the same id, join date,
  username and first name.
\<close>

theorem ledger_append_only:
  assumes "(bot_step adm)\<^sup>*\<^sup>* b b'"
  shows "prefix (get_user_messages uid (db b)) (get_user_messages uid (db b')) \<and>
         (get_user uid (db b) = Some u \<longrightarrow>
            (\<exists>u'. get_user uid (db b') = Some u' \<and> user_id u' = user_id u \<and>
                 joined_date u' = joined_date u \<and> username u' = username u \<and>
                 first_name u' = first_name u))"
  using steps_grow [OF assms] unfolding db_grows_def by blast

theorem ledger_append_only_witness:
  "(bot_step 1)\<^sup>*\<^sup>* (init_bot [] No_file)
     (post (dispatch \<lparr>admin_user_id = 1, now = [], deliver = (\<lambda>_ _. Sent)\<rparr> (init_bot [] No_file)
        (Command \<lparr>tg_id = 5, tg_username = None, tg_first_name = [65]\<rparr> (ascii ''start'') []))) \<and>
   prefix (get_user_messages 5 (db (init_bot [] No_file)))
     (get_user_messages 5 (db (post (dispatch \<lparr>admin_user_id = 1, now = [], deliver = (\<lambda>_ _. Sent)\<rparr> (init_bot [] No_file)
        (Command \<lparr>tg_id = 5, tg_username = None, tg_first_name = [65]\<rparr> (ascii ''start'') [])))))"
proof -
  have h: "(bot_step 1)\<^sup>*\<^sup>* (init_bot [] No_file)
     (post (dispatch \<lparr>admin_user_id = 1, now = [], deliver = (\<lambda>_ _. Sent)\<rparr> (init_bot [] No_file)
        (Command \<lparr>tg_id = 5, tg_username = None, tg_first_name = [65]\<rparr> (ascii ''start'') [])))"
    by (rule r_into_rtranclp [of "bot_step 1", OF start_step])
  show ?thesis using h ledger_append_only [OF h, of 5] by blast
qed

text \<open>
  (C5) Block gating end to end: after the operator's \<open>/block <id>\<close> for a
  registered client, that client's next message is rejected with no state change;
  after \<open>/unblock <id>\<close>, its next message is recorded (and forwarded) normally.
\<close>

theorem block_then_unblock_gates_client:
  assumes ud: "get_user (tg_id c) (db b) = Some ud"
    and adm: "tg_id a = admin_user_id e" and cl: "tg_id c \<noteq> admin_user_id e"
    and arg: "py_int x = Some (tg_id c)"
  shows "dispatch e (post (dispatch e b (Command a (ascii ''block'') [x]))) (Text_message c m) =
           finish (post (dispatch e b (Command a (ascii ''block'') [x]))) [Reply_text You_are_blocked] \<and>
         get_user_messages (tg_id c)
           (db (post (dispatch e (post (dispatch e (post (dispatch e b (Command a (ascii ''block'') [x])))
                 (Command a (ascii ''unblock'') [x]))) (Text_message c m)))) =
           messages ud @ [new_message (message_text_of m) (now e) False]"
proof
  let ?b1 = "post (dispatch e b (Command a (ascii ''block'') [x]))"
  let ?b2 = "post (dispatch e ?b1 (Command a (ascii ''unblock'') [x]))"
  have "db ?b1 = deactivate_user (tg_id c) (db b)"
    using adm arg by (simp add: block_command_def)
  then have g1: "get_user (tg_id c) (db ?b1) = Some (ud\<lparr>is_active := False\<rparr>)"
    using ud by (simp add: get_user_deactivate)
  then show "dispatch e ?b1 (Text_message c m) = finish ?b1 [Reply_text You_are_blocked]"
    using cl by (simp add: handle_message_def handle_client_message_rejected)
  have "db ?b2 = activate_user (tg_id c) (db ?b1)"
    using adm arg by (simp add: unblock_command_def)
  then have "get_user (tg_id c) (db ?b2) = Some (ud\<lparr>is_active := True\<rparr>)"
    using g1 by (simp add: get_user_activate)
  then show "get_user_messages (tg_id c) (db (post (dispatch e ?b2 (Text_message c m)))) =
           messages ud @ [new_message (message_text_of m) (now e) False]"
    using cl by (simp add: handle_message_def handle_client_message_active get_user_messages_def
        registry_simps)
qed

theorem block_then_unblock_gates_client_witness:
  "get_user 5 (db (with_db (add_user 5 None None []) (init_bot [] No_file))) = Some (new_user 5 None None []) \<and>
   py_int (ascii ''5'') = Some 5 \<and>
   get_user_messages 5
     (db (post (dispatch \<lparr>admin_user_id = 1, now = [], deliver = (\<lambda>_ _. Sent)\<rparr>
       (post (dispatch \<lparr>admin_user_id = 1, now = [], deliver = (\<lambda>_ _. Sent)\<rparr>
         (post (dispatch \<lparr>admin_user_id = 1, now = [], deliver = (\<lambda>_ _. Sent)\<rparr>
            (with_db (add_user 5 None None []) (init_bot [] No_file))
            (Command \<lparr>tg_id = 1, tg_username = None, tg_first_name = [79]\<rparr> (ascii ''block'') [ascii ''5''])))
         (Command \<lparr>tg_id = 1, tg_username = None, tg_first_name = [79]\<rparr> (ascii ''unblock'') [ascii ''5''])))
       (Text_message \<lparr>tg_id = 5, tg_username = None, tg_first_name = [65]\<rparr>
          \<lparr>tg_text = Some [104], tg_caption = None\<rparr>)))) =
   [new_message [104] [] False]"
proof -
  let ?b = "with_db (add_user 5 None None []) (init_bot [] No_file)"
  let ?c = "\<lparr>tg_id = 5, tg_username = None, tg_first_name = [65]\<rparr>"
  let ?a = "\<lparr>tg_id = 1, tg_username = None, tg_first_name = [79]\<rparr>"
  let ?e = "\<lparr>admin_user_id = 1, now = [], deliver = (\<lambda>_ _. Sent)\<rparr>"
  have h1: "get_user (tg_id ?c) (db ?b) = Some (new_user 5 None None [])"
    by (simp add: registry_eval init_bot_def with_db_def)
  have h2: "tg_id ?a = admin_user_id ?e" by simp
  have h3: "tg_id ?c \<noteq> admin_user_id ?e" by simp
  have h4: "py_int (ascii ''5'') = Some (tg_id ?c)"
    using int_of_str_int [of 5] by (simp add: str_int_def str_nat.simps)
  show ?thesis
    using block_then_unblock_gates_client [OF h1 h2 h3 h4, of "\<lparr>tg_text = Some [104], tg_caption = None\<rparr>"]
      h1 h4 by (simp add: new_user_def message_text_of_def)
qed

text \<open>
  (C13) Per-user state machine: in one step of the bot a user's state moves only
  along the design's transitions (no record to active on first contact, active to
  blocked, blocked to active, or stays); in particular a record never disappears and
  a new user starts active.
\<close>

theorem user_status_machine:
  "bot_step adm b b' \<Longrightarrow> status_trans (status_of (db b) uid) (status_of (db b') uid)"
  by (blast dest: bot_step_db_op db_op_status)

theorem user_status_machine_witness:
  "status_trans
     (status_of (db (init_bot [] No_file)) 5)
     (status_of (db (post (dispatch \<lparr>admin_user_id = 1, now = [], deliver = (\<lambda>_ _. Sent)\<rparr> (init_bot [] No_file)
        (Command \<lparr>tg_id = 5, tg_username = None, tg_first_name = [65]\<rparr> (ascii ''start'') [])))) 5)"
  by (rule user_status_machine [OF start_step])

text \<open>
  (C14) The operator's commands (\<open>/users\<close>, \<open>/stats\<close>, \<open>/reply\<close>,
  \<open>/broadcast\<close>, \<open>/block\<close>, \<open>/unblock\<close>) sent by anyone else do nothing at all:
  no state change, no message.
\<close>

theorem operator_commands_need_operator:
  assumes "tg_id u \<noteq> admin_user_id e"
    and "c \<in> {ascii ''users'', ascii ''stats'', ascii ''reply'', ascii ''broadcast'', ascii ''block'', ascii ''unblock''}"
  shows "dispatch e b (Command u c args) = finish b []"
  using assms
  by (auto simp: users_command_def stats_command_def reply_command_def broadcast_command_def
      block_command_def unblock_command_def)

theorem operator_commands_need_operator_witness:
  "dispatch \<lparr>admin_user_id = 1, now = [], deliver = (\<lambda>_ _. Sent)\<rparr> (init_bot [] No_file)
     (Command \<lparr>tg_id = 5, tg_username = None, tg_first_name = [65]\<rparr> (ascii ''block'') [ascii ''7'']) =
   finish (init_bot [] No_file) []"
  by (rule operator_commands_need_operator) simp_all

text \<open>
  (C17) The reply target is never read: for every update, the messages the bot
  sends, the exception it raises and the registry it leaves do not depend on
  \<open>admin_current_chat\<close>.  The design's \<open>handleBareOperatorMessage\<close> should send a
  bare operator message to the selected target.
\<close>

theorem reply_target_never_read:
  "acts (dispatch e (b\<lparr>admin_current_chat := c\<rparr>) upd) = acts (dispatch e b upd) \<and>
   raised (dispatch e (b\<lparr>admin_current_chat := c\<rparr>) upd) = raised (dispatch e b upd) \<and>
   db (post (dispatch e (b\<lparr>admin_current_chat := c\<rparr>) upd)) = db (post (dispatch e b upd))"
  using dispatch_ignores_target by (simp add: same_view_def)

text \<open>
  (C18) With a reply target selected, a bare text message of the operator is not
  delivered to the target and not recorded: the operator is shown the selection
  keyboard of the last five active users again.
\<close>

theorem bare_message_ignores_reply_target:
  assumes "tg_id u = admin_user_id e" and "tg_text m = Some t" and "\<not> py_startswith t (ascii ''/'')"
    and "get_all_users (db b) \<noteq> []"
  shows "dispatch e (b\<lparr>admin_current_chat := Some target\<rparr>) (Text_message u m) =
    finish (b\<lparr>admin_current_chat := Some target\<rparr>)
      [Reply_text (Select_user (map user_button (py_last 5 (get_all_users (db b)))))]"
  using assms by (simp add: handle_message_def handle_admin_message_def Let_def)

theorem bare_message_ignores_reply_target_witness:
  "get_all_users (db (with_db (add_user 5 None None []) (init_bot [] No_file))) \<noteq> [] \<and>
   \<not> py_startswith [104] (ascii ''/'') \<and>
   dispatch \<lparr>admin_user_id = 1, now = [], deliver = (\<lambda>_ _. Sent)\<rparr>
     ((with_db (add_user 5 None None []) (init_bot [] No_file))\<lparr>admin_current_chat := Some 5\<rparr>)
     (Text_message \<lparr>tg_id = 1, tg_username = None, tg_first_name = [79]\<rparr> \<lparr>tg_text = Some [104], tg_caption = None\<rparr>) =
   finish ((with_db (add_user 5 None None []) (init_bot [] No_file))\<lparr>admin_current_chat := Some 5\<rparr>)
     [Reply_text (Select_user (map user_button (py_last 5 (get_all_users (db (with_db (add_user 5 None None []) (init_bot [] No_file)))))))]"
proof -
  let ?b = "with_db (add_user 5 None None []) (init_bot [] No_file)"
  have h1: "get_all_users (db ?b) \<noteq> []" by (simp add: registry_eval init_bot_def with_db_def)
  have h2: "\<not> py_startswith [104] (ascii ''/'')" by (simp add: py_startswith_def)
  have h0: "tg_id \<lparr>tg_id = 1, tg_username = None, tg_first_name = [79]\<rparr> =
      admin_user_id \<lparr>admin_user_id = 1, now = [], deliver = (\<lambda>_ _. Sent)\<rparr>" by simp
  have hm: "tg_text \<lparr>tg_text = Some [104], tg_caption = None\<rparr> = Some [104]" by simp
  show ?thesis
    using bare_message_ignores_reply_target [OF h0 hm h2 h1, of 5] h1 h2 by simp
qed

text \<open>
  (C27) A media message (no text) from the operator makes \<open>handle_admin_message\<close>
  raise \<open>AttributeError\<close> on \<open>message.text.startswith\<close>; nothing is changed or
  sent.  The design does not say what a non-text operator message does.
\<close>

theorem operator_media_message_raises:
  "tg_id u = admin_user_id e \<Longrightarrow> tg_text m = None \<Longrightarrow>
   dispatch e b (Text_message u m) = fail b [] AttributeError"
  by (simp add: handle_message_def handle_admin_message_def)

theorem operator_media_message_raises_witness:
  "dispatch \<lparr>admin_user_id = 1, now = [], deliver = (\<lambda>_ _. Sent)\<rparr> (init_bot [] No_file)
     (Text_message \<lparr>tg_id = 1, tg_username = None, tg_first_name = [79]\<rparr> \<lparr>tg_text = None, tg_caption = Some [104]\<rparr>) =
   fail (init_bot [] No_file) [] AttributeError"
  by (rule operator_media_message_raises) simp_all

end
